theory Spec2Isabelle
  imports Main "HOL-Library.Word" "HOL-Library.AList"
begin

unbundle bit_operations_syntax

chapter \<open>The network scanner of the 4D Helper extension\<close>

text \<open>
  The model follows \<^verbatim>\<open>serverScanner.ts\<close> (subnet arithmetic, TCP probes, the UDP discovery
  protocol and the three scans) and the scan cache of \<^verbatim>\<open>serverManager.ts\<close>. Part I holds the
  definitions, in the order of the source; Part II the lemmas and the properties.
\<close>

section \<open>Part I: the model\<close>

subsection \<open>JavaScript numbers and strings\<close>

text \<open>
  The numbers of the scanner are octets, ports, counts and millisecond clocks. A JavaScript
  number is modelled as an integer or \<open>NaN\<close>; the integers are exact as long as they stay
  below \<open>2^53\<close>, which they do here. \<open>undefined\<close> (a read past the end of an array, a hole
  of an array) is \<open>None\<close> of an option type.
\<close>

datatype number = Num int | NaN

fun num_add :: "number \<Rightarrow> number \<Rightarrow> number" where
  "num_add (Num a) (Num b) = Num (a + b)"
| "num_add _ _ = NaN"

fun num_sub :: "number \<Rightarrow> number \<Rightarrow> number" where
  "num_sub (Num a) (Num b) = Num (a - b)"
| "num_sub _ _ = NaN"

fun num_mul :: "number \<Rightarrow> number \<Rightarrow> number" where
  "num_mul (Num a) (Num b) = Num (a * b)"
| "num_mul _ _ = NaN"

text \<open>
  The bitwise operators convert both operands with \<open>ToInt32\<close>: \<open>NaN\<close> and \<open>undefined\<close> become
  0, an integer wraps to 32 bits, and the result is read as a signed 32-bit integer.
\<close>

fun ToInt32 :: "number option \<Rightarrow> 32 word" where
  "ToInt32 None = 0"
| "ToInt32 (Some NaN) = 0"
| "ToInt32 (Some (Num n)) = word_of_int n"

definition js_and :: "number option \<Rightarrow> number option \<Rightarrow> int" where
  "js_and a b = sint (ToInt32 a AND ToInt32 b)"

definition js_or :: "number option \<Rightarrow> number option \<Rightarrow> int" where
  "js_or a b = sint (ToInt32 a OR ToInt32 b)"

text \<open>\<^verbatim>\<open>xs[i]\<close>: the element, or \<open>undefined\<close> past the end.\<close>

definition at_index :: "'a list \<Rightarrow> nat \<Rightarrow> 'a option" where
  "at_index xs i = (if i < length xs then Some (xs ! i) else None)"

text \<open>
  \<^verbatim>\<open>xs.slice(start, end)\<close>: a negative index counts from the end, both indices are clipped to
  the array, and an empty range gives the empty array.
\<close>

definition js_slice :: "'a list \<Rightarrow> int \<Rightarrow> int \<Rightarrow> 'a list" where
  "js_slice xs start stop =
     (let len = int (length xs);
          k = (if start < 0 then max (len + start) 0 else min start len);
          final = (if stop < 0 then max (len + stop) 0 else min stop len)
      in take (nat (final - k)) (drop (nat k) xs))"

text \<open>Decimal digits, and the decimal text of an integer (\<^verbatim>\<open>String(n)\<close>, \<^verbatim>\<open>`${n}`\<close>).\<close>

definition digit_char :: "nat \<Rightarrow> char" where
  "digit_char d = char_of (48 + d)"

definition is_digit :: "char \<Rightarrow> bool" where
  "is_digit c = (48 \<le> (of_char c :: nat) \<and> (of_char c :: nat) \<le> 57)"

definition digit_val :: "char \<Rightarrow> nat" where
  "digit_val c = of_char c - 48"

function show_nat :: "nat \<Rightarrow> string" where
  "show_nat n =
     (if n < 10 then [digit_char n] else show_nat (n div 10) @ [digit_char (n mod 10)])"
  by pat_completeness auto
termination
  by (relation "measure id") auto

declare show_nat.simps [simp del]

definition show_int :: "int \<Rightarrow> string" where
  "show_int n = (if n < 0 then CHR ''-'' # show_nat (nat (- n)) else show_nat (nat n))"

text \<open>
  \<^verbatim>\<open>Number(s)\<close> on the strings the scanner meets: the empty string is 0, a run of decimal
  digits with an optional sign is that integer, anything else is \<open>NaN\<close>. JavaScript also
  reads white space, hexadecimal, exponents and \<^verbatim>\<open>Infinity\<close>; none of them occurs in an
  address of the operating system or in a string built by \<^verbatim>\<open>calculateSubnet\<close>, and the model
  says \<open>NaN\<close> for them.
\<close>

definition digits_val :: "string \<Rightarrow> nat" where
  "digits_val s = foldl (\<lambda>a c. 10 * a + digit_val c) 0 s"

definition all_digits :: "string \<Rightarrow> bool" where
  "all_digits s = (s \<noteq> [] \<and> list_all is_digit s)"

definition Number :: "string \<Rightarrow> number" where
  "Number s =
     (if s = [] then Num 0
      else if all_digits s then Num (int (digits_val s))
      else if hd s = CHR ''-'' \<and> all_digits (tl s) then Num (- int (digits_val (tl s)))
      else if hd s = CHR ''+'' \<and> all_digits (tl s) then Num (int (digits_val (tl s)))
      else NaN)"

text \<open>\<^verbatim>\<open>s.split(".")\<close>: the pieces between the dots; never the empty array.\<close>

fun split_dot :: "string \<Rightarrow> string list" where
  "split_dot [] = [[]]"
| "split_dot (c # cs) =
     (if c = CHR ''.'' then [] # split_dot cs
      else (case split_dot cs of [] \<Rightarrow> [[c]] | w # ws \<Rightarrow> (c # w) # ws))"

text \<open>
  \<^verbatim>\<open>parts.join(".")\<close>: a hole or \<open>undefined\<close> prints as the empty string. A template literal
  prints \<open>undefined\<close> by name.
\<close>

fun join_elem :: "number option \<Rightarrow> string" where
  "join_elem None = []"
| "join_elem (Some NaN) = ''NaN''"
| "join_elem (Some (Num n)) = show_int n"

fun join_dot :: "number option list \<Rightarrow> string" where
  "join_dot [] = []"
| "join_dot [x] = join_elem x"
| "join_dot (x # y # ys) = join_elem x @ ''.'' @ join_dot (y # ys)"

fun template :: "number option \<Rightarrow> string" where
  "template None = ''undefined''"
| "template (Some NaN) = ''NaN''"
| "template (Some (Num n)) = show_int n"

text \<open>\<^verbatim>\<open>a === b\<close> on numbers and \<open>undefined\<close>: \<open>NaN\<close> equals nothing.\<close>

fun strict_eq :: "number option \<Rightarrow> number option \<Rightarrow> bool" where
  "strict_eq None None = True"
| "strict_eq (Some (Num a)) (Some (Num b)) = (a = b)"
| "strict_eq _ _ = False"

text \<open>
  \<^verbatim>\<open>s.indexOf(c)\<close> and \<^verbatim>\<open>s.lastIndexOf(c)\<close> (\<open>-1\<close> when \<open>c\<close> does not occur), and
  \<^verbatim>\<open>s.substring(start, end)\<close>, which clips both indices to the string and swaps them when
  the first is the larger.
\<close>

fun index_from :: "char \<Rightarrow> string \<Rightarrow> int \<Rightarrow> int" where
  "index_from c [] i = - 1"
| "index_from c (x # xs) i = (if x = c then i else index_from c xs (i + 1))"

definition indexOf :: "string \<Rightarrow> char \<Rightarrow> int" where
  "indexOf s c = index_from c s 0"

fun last_index_from :: "char \<Rightarrow> string \<Rightarrow> int \<Rightarrow> int \<Rightarrow> int" where
  "last_index_from c [] i found = found"
| "last_index_from c (x # xs) i found =
     last_index_from c xs (i + 1) (if x = c then i else found)"

definition lastIndexOf :: "string \<Rightarrow> char \<Rightarrow> int" where
  "lastIndexOf s c = last_index_from c s 0 (- 1)"

definition js_substring :: "string \<Rightarrow> int \<Rightarrow> int \<Rightarrow> string" where
  "js_substring s start stop =
     (let len = int (length s);
          a = max 0 (min start len);
          b = max 0 (min stop len)
      in take (nat (max a b - min a b)) (drop (nat (min a b)) s))"

subsection \<open>Subnet arithmetic\<close>

record SubnetInfo =
  localIp :: string
  netmask :: string
  networkAddress :: string
  broadcastAddress :: string
  firstHost :: string
  lastHost :: string
  totalHosts :: number

text \<open>
  \<^verbatim>\<open>parts[3] += d\<close> on a copy of an array of 32-bit integers. With four parts or more the
  fourth is replaced. With fewer, \<^verbatim>\<open>undefined + d\<close> is \<open>NaN\<close>, and the assignment extends the
  array to four elements, leaving holes.
\<close>

definition add_at3 :: "int list \<Rightarrow> int \<Rightarrow> number option list" where
  "add_at3 parts d =
     (if 3 < length parts then (map (Some \<circ> Num) parts)[3 := Some (Num (parts ! 3 + d))]
      else map (Some \<circ> Num) parts @ replicate (3 - length parts) None @ [Some NaN])"

text \<open>\<^verbatim>\<open>calculateSubnet(ip, netmask)\<close>, statement by statement.\<close>

definition calculateSubnet :: "string \<Rightarrow> string \<Rightarrow> SubnetInfo" where
  "calculateSubnet ip nmask =
     (let ipParts = map Number (split_dot ip);
          maskParts = map Number (split_dot nmask);
          networkParts = map (\<lambda>(i, part). js_and (Some part) (at_index maskParts i))
                           (enumerate 0 ipParts);
          invertedMask = map (\<lambda>part. num_sub (Num 255) part) maskParts;
          broadcastParts = map (\<lambda>(i, part). js_or (Some (Num part)) (at_index invertedMask i))
                             (enumerate 0 networkParts)
      in \<lparr> localIp = ip,
           netmask = nmask,
           networkAddress = join_dot (map (Some \<circ> Num) networkParts),
           broadcastAddress = join_dot (map (Some \<circ> Num) broadcastParts),
           firstHost = join_dot (add_at3 networkParts 1),
           lastHost = join_dot (add_at3 broadcastParts (- 1)),
           totalHosts =
             num_sub (foldl (\<lambda>acc val. num_mul acc (num_add val (Num 1))) (Num 1) invertedMask)
                     (Num 2) \<rparr>)"

text \<open>
  \<^verbatim>\<open>for (let i = a; i <= b; i++)\<close>: the values of \<open>i\<close>. A comparison with \<open>NaN\<close> or
  \<open>undefined\<close> is false, so the loop body never runs then.
\<close>

fun count_loop :: "number option \<Rightarrow> number option \<Rightarrow> int list" where
  "count_loop (Some (Num a)) (Some (Num b)) = [a..b]"
| "count_loop _ _ = []"

definition generateSubnetIPs :: "SubnetInfo \<Rightarrow> string list" where
  "generateSubnetIPs subnetInfo =
     (let startParts = map Number (split_dot (firstHost subnetInfo));
          endParts = map Number (split_dot (lastHost subnetInfo))
      in if strict_eq (at_index startParts 0) (at_index endParts 0) \<and>
            strict_eq (at_index startParts 1) (at_index endParts 1) \<and>
            strict_eq (at_index startParts 2) (at_index endParts 2)
         then map (\<lambda>i. template (at_index startParts 0) @ ''.'' @
                        template (at_index startParts 1) @ ''.'' @
                        template (at_index startParts 2) @ ''.'' @ show_int i)
                  (count_loop (at_index startParts 3) (at_index endParts 3))
         else (let localParts = map Number (split_dot (localIp subnetInfo))
               in map (\<lambda>i. template (at_index localParts 0) @ ''.'' @
                             template (at_index localParts 1) @ ''.'' @
                             template (at_index localParts 2) @ ''.'' @ show_int i)
                      [1..254]))"

text \<open>
  \<^verbatim>\<open>os.networkInterfaces()\<close> is an object from interface names to arrays of addresses, in
  insertion order; an entry may be \<open>undefined\<close>. \<^verbatim>\<open>getLocalNetworkInfo\<close> returns the subnet
  of the first IPv4 address that is not internal, or \<open>null\<close>. The field \<^verbatim>\<open>netmask\<close> of an
  address is \<open>if_netmask\<close> here, \<open>netmask\<close> being the field of \<open>SubnetInfo\<close>.
\<close>

record NetworkInterfaceInfo =
  address :: string
  if_netmask :: string
  family :: string
  internal :: bool

fun first_external :: "NetworkInterfaceInfo list \<Rightarrow> SubnetInfo option" where
  "first_external [] = None"
| "first_external (addr # addresses) =
     (if family addr = ''IPv4'' \<and> \<not> internal addr
      then Some (calculateSubnet (address addr) (if_netmask addr))
      else first_external addresses)"

fun getLocalNetworkInfo ::
  "(string \<times> NetworkInterfaceInfo list option) list \<Rightarrow> SubnetInfo option" where
  "getLocalNetworkInfo [] = None"
| "getLocalNetworkInfo ((name, None) # rest) = getLocalNetworkInfo rest"
| "getLocalNetworkInfo ((name, Some addresses) # rest) =
     (case first_external addresses of
        Some subnet \<Rightarrow> Some subnet
      | None \<Rightarrow> getLocalNetworkInfo rest)"

subsection \<open>The discovery packet\<close>

text \<open>
  A \<^verbatim>\<open>Buffer\<close> is a fixed-length array of bytes. \<^verbatim>\<open>Buffer.alloc(n, 0)\<close> is \<open>n\<close> zero bytes.
  \<^verbatim>\<open>buf.write(s, offset, "utf8")\<close> copies the encoding of \<open>s\<close> into the buffer from \<open>offset\<close>
  on, stops at the end of the buffer and never changes its length. The two tags of the
  packet are ASCII, so a character is one byte.
\<close>

type_synonym buffer = "8 word list"

definition Buffer_alloc :: "nat \<Rightarrow> 8 word \<Rightarrow> buffer" where
  "Buffer_alloc n fill = replicate n fill"

definition utf8 :: "string \<Rightarrow> 8 word list" where
  "utf8 s = map of_char s"

definition Buffer_write :: "buffer \<Rightarrow> string \<Rightarrow> nat \<Rightarrow> buffer" where
  "Buffer_write buf s offset =
     (let bytes = take (length buf - offset) (utf8 s)
      in take offset buf @ bytes @ drop (offset + length bytes) buf)"

definition build4DDiscoveryPacket :: buffer where
  "build4DDiscoveryPacket =
     (let packet = Buffer_alloc 96 0;
          packet = Buffer_write packet ''4D Server V'' 32;
          packet = Buffer_write packet ''4DQuicNegociation'' 64
      in packet)"

subsection \<open>The network, TCP probes and UDP discovery\<close>

text \<open>
  The three result types of the source. The fields \<^verbatim>\<open>host\<close> and \<^verbatim>\<open>port\<close> of a discovery
  reply are \<open>info_host\<close> and \<open>info_port\<close> here, and so on, to keep them apart from the
  fields of a scan result. An optional field is an option.
\<close>

record ServerScanResult =
  host :: string
  port :: int
  isOpen :: bool
  responseTime :: "nat option"

record Server4DDiscoveryInfo =
  info_host :: string
  info_service :: string
  info_database :: string
  info_port :: int

record Server4DScanResult = ServerScanResult +
  discoveryInfo :: "Server4DDiscoveryInfo option"
  relatedPorts :: "int list option"

text \<open>
  What happens to the one datagram of a discovery: a reply arrives (its payload decoded as
  text), the timer fires first, the socket reports an error, or the send fails.
\<close>

datatype udp_outcome = Message string | TimedOut | SocketError | SendError

text \<open>
  The world outside the scanner: the interfaces of the host; for a TCP connection attempt
  to host, port with a timeout, the time to connect (\<open>None\<close>: refused, timed out or failed);
  the outcome of a discovery datagram; and \<^verbatim>\<open>JSON.parse\<close>, a function of the JavaScript
  library that returns the parsed value or throws (\<open>None\<close>). The type assertion
  \<^verbatim>\<open>as Server4DDiscoveryInfo\<close> of the source is taken at its word: a value that parses has
  the four fields, and its port is an integer. Ports and timeouts are integers
  throughout: the fractions and the \<^verbatim>\<open>NaN\<close> that the type \<^verbatim>\<open>number\<close> of the source also holds
  are not modelled.
\<close>

record world =
  interfaces :: "(string \<times> NetworkInterfaceInfo list option) list"
  tcp :: "string \<Rightarrow> int \<Rightarrow> int \<Rightarrow> nat option"
  udp :: "string \<Rightarrow> int \<Rightarrow> int \<Rightarrow> udp_outcome"
  JSON_parse :: "string \<Rightarrow> Server4DDiscoveryInfo option"

text \<open>
  The exceptions: the \<^verbatim>\<open>SyntaxError\<close> of \<^verbatim>\<open>JSON.parse\<close>, the \<^verbatim>\<open>Error\<close> that the subnet scans
  throw without a local network, and the \<^verbatim>\<open>RangeError\<close> that the sockets of the library
  throw for an argument out of range.
\<close>

datatype js_error = SyntaxError | NoNetworkInformation | RangeError

text \<open>
  What a scan does to the outside, in order: it has a socket start a TCP connection
  (\<^verbatim>\<open>socket.connect\<close> returns), hands a discovery datagram to a socket (\<^verbatim>\<open>socket.send\<close>
  returns), or calls \<^verbatim>\<open>onProgress(scanned, total, found)\<close>. The third argument of a progress
  call is recorded as the array holds it at the call. The effects of a scan are those up
  to the moment its promise settles.
\<close>

datatype 'r effect = Connect string int | Datagram string int | Progress int int "'r list"

text \<open>
  \<^verbatim>\<open>Promise.all\<close> on promises of which each either rejects (\<open>Inl\<close>) or resolves (\<open>Inr\<close>): it
  rejects with the error of a rejected one, and otherwise resolves with the values in the
  order of the promises, whatever the order in which they resolve. Every rejection in
  this program is an exception thrown while the promise is created, so the first
  rejected promise of the list is the first to reject.
\<close>

fun Promise_all :: "('e + 'a) list \<Rightarrow> 'e + 'a list" where
  "Promise_all [] = Inr []"
| "Promise_all (Inl e # promises) = Inl e"
| "Promise_all (Inr x # promises) =
     (case Promise_all promises of Inl e \<Rightarrow> Inl e | Inr xs \<Rightarrow> Inr (x # xs))"

text \<open>
  \<^verbatim>\<open>checkPort\<close>. Two calls in the executor of its promise throw on a bad argument, and the
  promise then rejects: \<^verbatim>\<open>socket.setTimeout(timeout)\<close> throws a \<^verbatim>\<open>RangeError\<close> for a negative
  timeout, and \<^verbatim>\<open>socket.connect(port, host)\<close> throws a \<^verbatim>\<open>RangeError\<close> for a port outside 0 to
  65535. Otherwise the connection is started and one of the three handlers resolves the
  promise: open with the elapsed time on \<open>connect\<close>, closed on \<open>timeout\<close> and on \<open>error\<close>.
\<close>

definition checkPort :: "world \<Rightarrow> string \<Rightarrow> int \<Rightarrow> int \<Rightarrow> js_error + ServerScanResult" where
  "checkPort w host' port' timeout =
     (if timeout < 0 then Inl RangeError
      else if port' < 0 \<or> 65535 < port' then Inl RangeError
      else (case tcp w host' port' timeout of
              Some elapsed \<Rightarrow>
                Inr \<lparr> host = host', port = port', isOpen = True, responseTime = Some elapsed \<rparr>
            | None \<Rightarrow>
                Inr \<lparr> host = host', port = port', isOpen = False, responseTime = None \<rparr>))"

text \<open>
  The connections started by calling \<^verbatim>\<open>checkPort\<close> on each target of a list, in order: one for
  each call that does not throw.
\<close>

definition started :: "world \<Rightarrow> int \<Rightarrow> (string \<times> int) list \<Rightarrow> 'r effect list" where
  "started w timeout targets =
     concat (map (\<lambda>(ip, port'). case checkPort w ip port' timeout of
                                   Inl e \<Rightarrow> []
                                 | Inr result \<Rightarrow> [Connect ip port'])
                 targets)"

definition scanHostPorts ::
  "world \<Rightarrow> string \<Rightarrow> int list \<Rightarrow> int \<Rightarrow> js_error + ServerScanResult list" where
  "scanHostPorts w host' ports timeout =
     (case Promise_all (map (\<lambda>port'. checkPort w host' port' timeout) ports) of
        Inl e \<Rightarrow> Inl e
      | Inr results \<Rightarrow> Inr (filter isOpen results))"

text \<open>
  The body of the \<^verbatim>\<open>try\<close> block of the message handler of \<^verbatim>\<open>discover4DServer\<close>: \<open>Inl\<close> is
  the exception of \<^verbatim>\<open>JSON.parse\<close>, \<open>Inr\<close> the value passed to \<^verbatim>\<open>resolve\<close>. The \<^verbatim>\<open>catch\<close>
  block resolves with \<open>null\<close>.
\<close>

definition parse_reply ::
  "(string \<Rightarrow> Server4DDiscoveryInfo option) \<Rightarrow> string \<Rightarrow> js_error + Server4DDiscoveryInfo option"
where
  "parse_reply parse msgStr =
     (let jsonStart = indexOf msgStr CHR ''{'';
          jsonEnd = lastIndexOf msgStr CHR ''}''
      in if jsonStart = - 1 \<or> jsonEnd = - 1 then Inr None
         else (case parse (js_substring msgStr jsonStart (jsonEnd + 1)) of
                 None \<Rightarrow> Inl SyntaxError
               | Some info \<Rightarrow> Inr (Some info)))"

definition on_message ::
  "(string \<Rightarrow> Server4DDiscoveryInfo option) \<Rightarrow> string \<Rightarrow> Server4DDiscoveryInfo option" where
  "on_message parse msgStr =
     (case parse_reply parse msgStr of Inl e \<Rightarrow> None | Inr resolved \<Rightarrow> resolved)"

text \<open>
  \<^verbatim>\<open>discover4DServer\<close>. \<^verbatim>\<open>socket.send(packet, port, host, ...)\<close> is called in the executor of
  the promise and throws a \<^verbatim>\<open>RangeError\<close> for a port outside 1 to 65535: the promise then
  rejects and no datagram goes out. Otherwise the promise resolves: with the value of the
  message handler on a reply, and with \<open>null\<close> from the timer, the error handler and the
  send callback.
\<close>

definition discover4DServer ::
  "world \<Rightarrow> string \<Rightarrow> int \<Rightarrow> int \<Rightarrow> js_error + Server4DDiscoveryInfo option" where
  "discover4DServer w host' port' timeout =
     (if port' < 1 \<or> 65535 < port' then Inl RangeError
      else (case udp w host' port' timeout of
              Message msgStr \<Rightarrow> Inr (on_message (JSON_parse w) msgStr)
            | TimedOut \<Rightarrow> Inr None
            | SocketError \<Rightarrow> Inr None
            | SendError \<Rightarrow> Inr None))"

text \<open>
  The datagrams handed to the sockets by calling \<^verbatim>\<open>discover4DServer\<close> on each target of a
  list, in order: one for each call that does not throw.
\<close>

definition sent :: "world \<Rightarrow> int \<Rightarrow> (string \<times> int) list \<Rightarrow> 'r effect list" where
  "sent w timeout targets =
     concat (map (\<lambda>(ip, port'). case discover4DServer w ip port' timeout of
                                   Inl e \<Rightarrow> []
                                 | Inr info \<Rightarrow> [Datagram ip port'])
                 targets)"

subsection \<open>The TCP scans\<close>

text \<open>
  The targets of a batch, in the order the probes are started: every port of the first
  host, then every port of the second, and so on.
\<close>

definition targets_of :: "string list \<Rightarrow> int list \<Rightarrow> (string \<times> int) list" where
  "targets_of batch ports = concat (map (\<lambda>ip. map (\<lambda>port'. (ip, port')) ports) batch)"

text \<open>
  The loop of \<^verbatim>\<open>scanSubnet\<close>. The state is \<^verbatim>\<open>allResults\<close> and the effects so far; the result
  is the effects and either the error the scan rejects with or the array it returns. The
  loop \<^verbatim>\<open>for (let i = 0; i < ips.length; i += batchSize)\<close> does not end when \<open>batchSize\<close> is
  not positive, so the model counts iterations down from \<open>fuel\<close>, and \<open>None\<close> says the fuel
  ran out. Every probe of a batch is created before \<^verbatim>\<open>await Promise.all(batchPromises)\<close>;
  when one of them rejects, the scan rejects there, with no progress call for the batch.
\<close>

fun scanSubnet_loop ::
  "nat \<Rightarrow> world \<Rightarrow> string list \<Rightarrow> int list \<Rightarrow> int \<Rightarrow> int \<Rightarrow> bool \<Rightarrow> int \<Rightarrow>
   ServerScanResult list \<times> ServerScanResult effect list \<Rightarrow>
   (ServerScanResult effect list \<times> (js_error + ServerScanResult list)) option" where
  "scanSubnet_loop 0 w ips ports timeout batchSize onProgress i st =
     (if i < int (length ips) then None else Some (snd st, Inr (fst st)))"
| "scanSubnet_loop (Suc fuel) w ips ports timeout batchSize onProgress i st =
     (if i < int (length ips)
      then (let (allResults, effects) = st;
                batch = js_slice ips i (i + batchSize);
                effects = effects @ started w timeout (targets_of batch ports)
            in case Promise_all (map (\<lambda>(ip, port'). checkPort w ip port' timeout)
                                     (targets_of batch ports)) of
                 Inl e \<Rightarrow> Some (effects, Inl e)
               | Inr batchResults \<Rightarrow>
                   (let openPorts = filter isOpen batchResults;
                        allResults = allResults @ openPorts;
                        effects = (if onProgress
                                   then effects @ [Progress (min (i + batchSize) (int (length ips)))
                                                            (int (length ips)) allResults]
                                   else effects)
                    in scanSubnet_loop fuel w ips ports timeout batchSize onProgress
                         (i + batchSize) (allResults, effects)))
      else Some (snd st, Inr (fst st)))"

text \<open>
  \<^verbatim>\<open>scanSubnet\<close>: \<open>None\<close> when the fuel ran out; otherwise the effects and either the error
  thrown or the array returned. \<open>onProgress\<close> says whether the caller passed a callback.
\<close>

definition scanSubnet ::
  "nat \<Rightarrow> world \<Rightarrow> int list \<Rightarrow> int \<Rightarrow> int \<Rightarrow> bool \<Rightarrow>
   (ServerScanResult effect list \<times> (js_error + ServerScanResult list)) option" where
  "scanSubnet fuel w ports timeout batchSize onProgress =
     (case getLocalNetworkInfo (interfaces w) of
        None \<Rightarrow> Some ([], Inl NoNetworkInformation)
      | Some subnetInfo \<Rightarrow>
          scanSubnet_loop fuel w (generateSubnetIPs subnetInfo) ports timeout batchSize
            onProgress 0 ([], []))"

text \<open>
  \<^verbatim>\<open>scanHosts\<close>: one host after the other, \<open>i\<close> counting the hosts done and \<open>len\<close> being
  \<^verbatim>\<open>hosts.length\<close>. When \<^verbatim>\<open>scanHostPorts\<close> rejects for a host, the scan rejects there. The
  function does not look at the interfaces.
\<close>

fun scanHosts_loop ::
  "world \<Rightarrow> int \<Rightarrow> int list \<Rightarrow> int \<Rightarrow> bool \<Rightarrow> int \<Rightarrow>
   ServerScanResult list \<times> ServerScanResult effect list \<Rightarrow> string list \<Rightarrow>
   ServerScanResult effect list \<times> (js_error + ServerScanResult list)" where
  "scanHosts_loop w len ports timeout onProgress i st [] = (snd st, Inr (fst st))"
| "scanHosts_loop w len ports timeout onProgress i st (host' # rest) =
     (let (allResults, effects) = st;
          effects = effects @ started w timeout (map (\<lambda>port'. (host', port')) ports)
      in case scanHostPorts w host' ports timeout of
           Inl e \<Rightarrow> (effects, Inl e)
         | Inr results \<Rightarrow>
             (let allResults = allResults @ results;
                  effects = (if onProgress then effects @ [Progress (i + 1) len allResults]
                             else effects)
              in scanHosts_loop w len ports timeout onProgress (i + 1) (allResults, effects) rest))"

definition scanHosts ::
  "world \<Rightarrow> string list \<Rightarrow> int list \<Rightarrow> int \<Rightarrow> bool \<Rightarrow>
   ServerScanResult effect list \<times> (js_error + ServerScanResult list)" where
  "scanHosts w hosts ports timeout onProgress =
     scanHosts_loop w (int (length hosts)) ports timeout onProgress 0 ([], []) hosts"

subsection \<open>The UDP scan\<close>

text \<open>
  \<^verbatim>\<open>foundServers\<close> is a \<^verbatim>\<open>Map\<close> from the key \<^verbatim>\<open>`${ip}:${info.port}`\<close> to the result: a list of
  pairs in insertion order. \<^verbatim>\<open>set\<close> on a key that is present replaces the value where it
  stands, which is \<open>AList.update\<close>.
\<close>

definition server_key :: "string \<Rightarrow> int \<Rightarrow> string" where
  "server_key ip port' = ip @ '':'' @ show_int port'"

definition map_has :: "('k \<times> 'v) list \<Rightarrow> 'k \<Rightarrow> bool" where
  "map_has m k = (k \<in> set (map fst m))"

definition map_values :: "('k \<times> 'v) list \<Rightarrow> 'v list" where
  "map_values m = map snd m"

record udp_scan =
  foundServers :: "(string \<times> Server4DScanResult) list"
  completedChecks :: int
  effects :: "Server4DScanResult effect list"

text \<open>
  The ports probed around a discovered port: the loop over the offsets \<open>-2\<close> to 2 with its
  guard \<^verbatim>\<open>relatedPort > 0 && relatedPort <= 65535\<close>.
\<close>

definition related_candidates :: "int \<Rightarrow> int list" where
  "related_candidates p =
     filter (\<lambda>relatedPort. 0 < relatedPort \<and> relatedPort \<le> 65535)
            (map (\<lambda>offset. p + offset) [- 2..2])"

text \<open>
  The callback of a discovery runs in two parts, with the \<^verbatim>\<open>await Promise.all(tcpChecks)\<close>
  between them; callbacks of other targets of the batch can run in between. A target of a
  batch is pending (its discovery has not resolved), probing (its callback waits for the
  TCP probes it started for this reply, which resolve with the results held here) or done.
\<close>

datatype task = Pending | Probing Server4DDiscoveryInfo "ServerScanResult list" | Done

text \<open>
  First part, the callback of target \<open>i\<close>, on host \<open>ip\<close>, called with the value \<open>reply\<close> that
  the discovery resolved with: count the check; on a reply whose key is not in the map,
  start the TCP probes of the related ports. When one of these probes rejects, it does so
  as it is created, \<^verbatim>\<open>await Promise.all(tcpChecks)\<close> throws before any other callback
  runs, and the callback rejects: \<open>Inl\<close>, with the error and the state at that moment.
\<close>

definition on_reply ::
  "world \<Rightarrow> int \<Rightarrow> string \<Rightarrow> Server4DDiscoveryInfo option \<Rightarrow> nat \<Rightarrow> udp_scan \<times> task list \<Rightarrow>
   js_error \<times> udp_scan + udp_scan \<times> task list" where
  "on_reply w timeout ip reply i st =
     (let (s, tasks) = st;
          s = s\<lparr> completedChecks := completedChecks s + 1 \<rparr>
      in case reply of
           None \<Rightarrow> Inr (s, tasks[i := Done])
         | Some info \<Rightarrow>
             (let key = server_key ip (info_port info)
              in if \<not> map_has (foundServers s) key
                 then (let candidates = related_candidates (info_port info);
                           tcpChecks = map (\<lambda>relatedPort. checkPort w ip relatedPort timeout)
                                           candidates;
                           s = s\<lparr> effects := effects s @
                                   started w timeout (map (\<lambda>relatedPort. (ip, relatedPort))
                                                          candidates) \<rparr>
                       in case Promise_all tcpChecks of
                            Inl e \<Rightarrow> Inl (e, s)
                          | Inr tcpResults \<Rightarrow> Inr (s, tasks[i := Probing info tcpResults]))
                 else Inr (s, tasks[i := Done])))"

text \<open>
  The result recorded for a reply \<open>info\<close> of host \<open>ip\<close>, once the TCP probes have resolved
  with \<open>tcpResults\<close>: the ports of the open ones, sorted with the comparator
  \<^verbatim>\<open>(a, b) => a - b\<close>.
\<close>

definition server_result ::
  "string \<Rightarrow> Server4DDiscoveryInfo \<Rightarrow> ServerScanResult list \<Rightarrow> Server4DScanResult" where
  "server_result ip info tcpResults =
     (let relatedPorts' = map port (filter isOpen tcpResults)
      in \<lparr> host = ip, port = info_port info, isOpen = True, responseTime = None,
           discoveryInfo = Some info, relatedPorts = Some (sort relatedPorts') \<rparr>)"

text \<open>Second part, when the TCP probes of target \<open>i\<close> have resolved: record the server.\<close>

definition on_related ::
  "string \<Rightarrow> nat \<Rightarrow> Server4DDiscoveryInfo \<Rightarrow> ServerScanResult list \<Rightarrow>
   udp_scan \<times> task list \<Rightarrow> udp_scan \<times> task list" where
  "on_related ip i info tcpResults st =
     (let (s, tasks) = st;
          key = server_key ip (info_port info);
          serverResult = server_result ip info tcpResults
      in (s\<lparr> foundServers := AList.update key serverResult (foundServers s) \<rparr>,
          tasks[i := Done]))"

text \<open>
  The event loop runs one callback part at a time. An event names the target whose
  discovery resolved, or whose TCP probes resolved; it can happen only in the matching
  state of the target (\<open>None\<close> otherwise). \<open>infos\<close> holds, target by target, the value the
  discovery resolves with. A schedule is the list of the events of a batch in the order
  they happen; it is followed until a callback rejects.
\<close>

datatype event = Reply nat | Related nat

definition step ::
  "world \<Rightarrow> int \<Rightarrow> (string \<times> int) list \<Rightarrow> Server4DDiscoveryInfo option list \<Rightarrow> event \<Rightarrow>
   udp_scan \<times> task list \<Rightarrow> (js_error \<times> udp_scan + udp_scan \<times> task list) option" where
  "step w timeout targets infos ev st =
     (case ev of
        Reply i \<Rightarrow>
          (if i < length targets \<and> at_index (snd st) i = Some Pending
           then (case at_index infos i of
                   Some reply \<Rightarrow> Some (on_reply w timeout (fst (targets ! i)) reply i st)
                 | None \<Rightarrow> None)
           else None)
      | Related i \<Rightarrow>
          (if i < length targets
           then (case at_index (snd st) i of
                   Some (Probing info tcpResults) \<Rightarrow>
                     Some (Inr (on_related (fst (targets ! i)) i info tcpResults st))
                 | _ \<Rightarrow> None)
           else None))"

fun run_events ::
  "world \<Rightarrow> int \<Rightarrow> (string \<times> int) list \<Rightarrow> Server4DDiscoveryInfo option list \<Rightarrow> event list \<Rightarrow>
   udp_scan \<times> task list \<Rightarrow> (js_error \<times> udp_scan + udp_scan \<times> task list) option" where
  "run_events w timeout targets infos [] st = Some (Inr st)"
| "run_events w timeout targets infos (ev # evs) st =
     (case step w timeout targets infos ev st of
        None \<Rightarrow> None
      | Some (Inl rejected) \<Rightarrow> Some (Inl rejected)
      | Some (Inr st') \<Rightarrow> run_events w timeout targets infos evs st')"

text \<open>
  One batch. Every discovery of the batch is created, with its callback, before
  \<^verbatim>\<open>await Promise.all(batchPromises)\<close>. When a discovery rejects, its callback never runs,
  the promise of its \<^verbatim>\<open>then\<close> rejects and the scan rejects there, before any reply is
  handled. Otherwise the callbacks run as the schedule says, and the \<^verbatim>\<open>await\<close> returns when
  every target is done, or throws when a callback rejects. \<open>None\<close>: the schedule is not one
  of this batch.
\<close>

definition run_batch ::
  "world \<Rightarrow> int \<Rightarrow> (string \<times> int) list \<Rightarrow> event list \<Rightarrow> udp_scan \<Rightarrow>
   (js_error \<times> udp_scan + udp_scan) option" where
  "run_batch w timeout targets schedule s =
     (let s = s\<lparr> effects := effects s @ sent w timeout targets \<rparr>
      in case Promise_all (map (\<lambda>(ip, port'). discover4DServer w ip port' timeout) targets) of
           Inl e \<Rightarrow> Some (Inl (e, s))
         | Inr infos \<Rightarrow>
             (case run_events w timeout targets infos schedule
                     (s, replicate (length targets) Pending) of
                None \<Rightarrow> None
              | Some (Inl rejected) \<Rightarrow> Some (Inl rejected)
              | Some (Inr (s', tasks)) \<Rightarrow>
                  if list_all (\<lambda>t. t = Done) tasks then Some (Inr s') else None))"

text \<open>
  The loop over the batches takes one schedule for each batch. \<open>None\<close>: the schedules do
  not describe a run to the end (one of them is not a schedule of its batch, or they ran
  out, as they must when \<open>batchSize\<close> is not positive and the loop never ends).
\<close>

fun scanSubnetUDP_loop ::
  "world \<Rightarrow> string list \<Rightarrow> int list \<Rightarrow> int \<Rightarrow> int \<Rightarrow> bool \<Rightarrow> int \<Rightarrow> udp_scan \<Rightarrow>
   event list list \<Rightarrow> (js_error \<times> udp_scan + udp_scan) option" where
  "scanSubnetUDP_loop w ips ports timeout batchSize onProgress ipIdx s [] =
     (if ipIdx < int (length ips) then None else Some (Inr s))"
| "scanSubnetUDP_loop w ips ports timeout batchSize onProgress ipIdx s (schedule # schedules) =
     (if ipIdx < int (length ips)
      then (let ipBatch = js_slice ips ipIdx (ipIdx + batchSize);
                totalUDPChecks = int (length ips) * int (length ports)
            in case run_batch w timeout (targets_of ipBatch ports) schedule s of
                 None \<Rightarrow> None
               | Some (Inl rejected) \<Rightarrow> Some (Inl rejected)
               | Some (Inr s') \<Rightarrow>
                   (let s'' = (if onProgress
                               then s'\<lparr> effects := effects s' @
                                      [Progress (min (completedChecks s') totalUDPChecks)
                                                totalUDPChecks (map_values (foundServers s'))] \<rparr>
                               else s')
                    in scanSubnetUDP_loop w ips ports timeout batchSize onProgress
                         (ipIdx + batchSize) s'' schedules))
      else Some (Inr s))"

definition scanSubnetUDP ::
  "world \<Rightarrow> int list \<Rightarrow> int \<Rightarrow> int \<Rightarrow> bool \<Rightarrow> event list list \<Rightarrow>
   (Server4DScanResult effect list \<times> (js_error + Server4DScanResult list)) option" where
  "scanSubnetUDP w ports timeout batchSize onProgress schedules =
     (case getLocalNetworkInfo (interfaces w) of
        None \<Rightarrow> Some ([], Inl NoNetworkInformation)
      | Some subnetInfo \<Rightarrow>
          (case scanSubnetUDP_loop w (generateSubnetIPs subnetInfo) ports timeout batchSize
                  onProgress 0 \<lparr> foundServers = [], completedChecks = 0, effects = [] \<rparr>
                  schedules of
             None \<Rightarrow> None
           | Some (Inl (e, s)) \<Rightarrow> Some (effects s, Inl e)
           | Some (Inr s) \<Rightarrow> Some (effects s, Inr (map_values (foundServers s)))))"

subsection \<open>The scan cache\<close>

text \<open>
  The module variable \<^verbatim>\<open>scanCache\<close> is \<open>null\<close> or one entry. \<^verbatim>\<open>Date.now()\<close> is the parameter
  \<open>now\<close>, in milliseconds. The cache never looks inside the servers or the port map, which
  stay type parameters.
\<close>

record ('s, 'm) ScanCache =
  servers :: "'s list"
  timestamp :: int
  portsByHost :: 'm

definition setScanCache ::
  "int \<Rightarrow> 's list \<Rightarrow> 'm \<Rightarrow> ('s, 'm) ScanCache option \<Rightarrow> ('s, 'm) ScanCache option" where
  "setScanCache now servers' portsByHost' scanCache =
     Some \<lparr> servers = servers', timestamp = now, portsByHost = portsByHost' \<rparr>"

definition clearScanCache :: "('s, 'm) ScanCache option \<Rightarrow> ('s, 'm) ScanCache option" where
  "clearScanCache scanCache = None"

definition isScanCacheStale :: "int \<Rightarrow> ('s, 'm) ScanCache option \<Rightarrow> int \<Rightarrow> bool" where
  "isScanCacheStale now scanCache cacheTimeoutSeconds =
     (case scanCache of
        None \<Rightarrow> True
      | Some entry \<Rightarrow> (let ageMs = now - timestamp entry in ageMs > cacheTimeoutSeconds * 1000))"

subsection \<open>Notions used in the statements\<close>

text \<open>
  The dotted text of four integers (the addresses of the operating system are of this
  form), and the range of an octet.
\<close>

definition ipv4 :: "int \<Rightarrow> int \<Rightarrow> int \<Rightarrow> int \<Rightarrow> string" where
  "ipv4 a b c d = show_int a @ ''.'' @ show_int b @ ''.'' @ show_int c @ ''.'' @ show_int d"

definition octet :: "int \<Rightarrow> bool" where
  "octet x = (0 \<le> x \<and> x \<le> 255)"

text \<open>
  What a TCP probe resolves with when its connection is started. The open results of
  probing every port of every host of a list, in the order of the probes; the connections
  these probes start; and the progress calls among the effects of a scan, in order, each
  with its three arguments.
\<close>

definition port_result :: "world \<Rightarrow> string \<Rightarrow> int \<Rightarrow> int \<Rightarrow> ServerScanResult" where
  "port_result w host' port' timeout =
     (case tcp w host' port' timeout of
        Some elapsed \<Rightarrow> \<lparr> host = host', port = port', isOpen = True, responseTime = Some elapsed \<rparr>
      | None \<Rightarrow> \<lparr> host = host', port = port', isOpen = False, responseTime = None \<rparr>)"

definition probe_results :: "world \<Rightarrow> int list \<Rightarrow> int \<Rightarrow> string list \<Rightarrow> ServerScanResult list" where
  "probe_results w ports timeout hosts =
     filter isOpen (map (\<lambda>(ip, port'). port_result w ip port' timeout) (targets_of hosts ports))"

definition connects :: "string list \<Rightarrow> int list \<Rightarrow> 'r effect list" where
  "connects hosts ports = map (\<lambda>(ip, port'). Connect ip port') (targets_of hosts ports)"

fun progress_calls :: "'r effect list \<Rightarrow> (int \<times> int \<times> 'r list) list" where
  "progress_calls [] = []"
| "progress_calls (Progress scanned len found # es) = (scanned, len, found) # progress_calls es"
| "progress_calls (Connect h p # es) = progress_calls es"
| "progress_calls (Datagram h p # es) = progress_calls es"

text \<open>
  The effects of batch \<open>k\<close> of a TCP scan in batches of \<open>b\<close> hosts that started at batch
  \<open>k0\<close> with the results \<open>acc\<close>: the connections of the batch, then one progress call with
  everything found so far. The number of batches of \<open>n\<close> hosts is \<open>n / b\<close> rounded up.
\<close>

definition batch_effects ::
  "world \<Rightarrow> string list \<Rightarrow> int list \<Rightarrow> int \<Rightarrow> nat \<Rightarrow> ServerScanResult list \<Rightarrow> nat \<Rightarrow> nat \<Rightarrow>
   ServerScanResult effect list" where
  "batch_effects w ips ports timeout b acc k0 k =
     connects (take b (drop (k * b) ips)) ports @
     [Progress (int (min ((k + 1) * b) (length ips))) (int (length ips))
        (acc @ probe_results w ports timeout (take ((k + 1) * b - k0 * b) (drop (k0 * b) ips)))]"

definition batch_count :: "nat \<Rightarrow> nat \<Rightarrow> nat" where
  "batch_count n b = (n + b - 1) div b"

text \<open>
  Whether some interface has an IPv4 address that is not internal.
\<close>

definition has_external_ipv4 :: "(string \<times> NetworkInterfaceInfo list option) list \<Rightarrow> bool" where
  "has_external_ipv4 ifs =
     list_ex (\<lambda>(name, addresses).
                case addresses of
                  None \<Rightarrow> False
                | Some addrs \<Rightarrow> list_ex (\<lambda>addr. family addr = ''IPv4'' \<and> \<not> internal addr) addrs)
             ifs"

text \<open>
  What the TCP probes around the port \<open>p\<close> of a host resolve with.
\<close>

definition related_results :: "world \<Rightarrow> int \<Rightarrow> string \<Rightarrow> int \<Rightarrow> ServerScanResult list" where
  "related_results w timeout ip p =
     map (\<lambda>relatedPort. port_result w ip relatedPort timeout) (related_candidates p)"

text \<open>
  One schedule of a batch: the callbacks run target after target, each to its end, as they
  would if every reply and every probe came back at once. \<open>found\<close> is the map as the
  callbacks before have left it.
\<close>

fun sequential_schedule ::
  "world \<Rightarrow> int \<Rightarrow> (string \<times> int) list \<Rightarrow> nat \<Rightarrow> (string \<times> Server4DScanResult) list \<Rightarrow> event list"
where
  "sequential_schedule w timeout [] i found = []"
| "sequential_schedule w timeout ((ip, p) # rest) i found =
     (case discover4DServer w ip p timeout of
        Inr (Some info) \<Rightarrow>
          if map_has found (server_key ip (info_port info))
          then Reply i # sequential_schedule w timeout rest (Suc i) found
          else Reply i # Related i #
               sequential_schedule w timeout rest (Suc i)
                 (AList.update (server_key ip (info_port info))
                    (server_result ip info (related_results w timeout ip (info_port info)))
                    found)
      | _ \<Rightarrow> Reply i # sequential_schedule w timeout rest (Suc i) found)"

subsection \<open>Invariants of the UDP scan\<close>

text \<open>
  An entry of the map comes from a reply when its key and its value are those built for a
  host of the subnet from a reply of that host on a scanned port. A connection is in
  range when its port is between 1 and 65535. The invariant of the scan: the keys of the
  map are distinct, every entry comes from a reply, every connection started is in range.
\<close>

definition from_reply ::
  "world \<Rightarrow> int \<Rightarrow> string list \<Rightarrow> int list \<Rightarrow> string \<times> Server4DScanResult \<Rightarrow> bool" where
  "from_reply w timeout ips ports entry =
     (\<exists>ip \<in> set ips. \<exists>p \<in> set ports.
        case discover4DServer w ip p timeout of
          Inr (Some info) \<Rightarrow>
            entry = (server_key ip (info_port info),
                     server_result ip info (related_results w timeout ip (info_port info)))
        | _ \<Rightarrow> False)"

fun connect_ok :: "'r effect \<Rightarrow> bool" where
  "connect_ok (Connect h q) = (1 \<le> q \<and> q \<le> 65535)"
| "connect_ok (Datagram h q) = True"
| "connect_ok (Progress scanned len found) = True"

definition scan_inv :: "world \<Rightarrow> int \<Rightarrow> string list \<Rightarrow> int list \<Rightarrow> udp_scan \<Rightarrow> bool" where
  "scan_inv w timeout ips ports s =
     (distinct (map fst (foundServers s)) \<and>
      list_all (from_reply w timeout ips ports) (foundServers s) \<and>
      list_all connect_ok (effects s))"

text \<open>
  A target is answered for when it got no reply or the key of its reply is in the map.
  Within a batch, a target that is probing holds the reply of its discovery and the
  results of the probes around the port of that reply, and a target that is done is
  answered for. A list of hosts is covered when every target of these hosts is answered
  for.
\<close>

definition replied :: "world \<Rightarrow> int \<Rightarrow> udp_scan \<Rightarrow> string \<times> int \<Rightarrow> bool" where
  "replied w timeout s target =
     (case discover4DServer w (fst target) (snd target) timeout of
        Inr (Some info) \<Rightarrow> map_has (foundServers s) (server_key (fst target) (info_port info))
      | _ \<Rightarrow> True)"

definition task_ok :: "world \<Rightarrow> int \<Rightarrow> udp_scan \<Rightarrow> string \<times> int \<Rightarrow> task \<Rightarrow> bool" where
  "task_ok w timeout s target t =
     (case t of
        Pending \<Rightarrow> True
      | Probing info tcpResults \<Rightarrow>
          discover4DServer w (fst target) (snd target) timeout = Inr (Some info) \<and>
          tcpResults = related_results w timeout (fst target) (info_port info)
      | Done \<Rightarrow> replied w timeout s target)"

definition batch_inv ::
  "world \<Rightarrow> int \<Rightarrow> string list \<Rightarrow> int list \<Rightarrow> (string \<times> int) list \<Rightarrow> udp_scan \<times> task list \<Rightarrow> bool"
where
  "batch_inv w timeout ips ports targets st =
     (scan_inv w timeout ips ports (fst st) \<and>
      list_all2 (task_ok w timeout (fst st)) targets (snd st))"

definition covered :: "world \<Rightarrow> int \<Rightarrow> int list \<Rightarrow> udp_scan \<Rightarrow> string list \<Rightarrow> bool" where
  "covered w timeout ports s hosts = list_all (replied w timeout s) (targets_of hosts ports)"

subsection \<open>Example worlds and runs\<close>

text \<open>
  Worlds and runs on which the properties are evaluated: twenty-five hosts; a host with
  the address 192.168.1.50 in a subnet of two hosts, where 192.168.1.49 answers every
  discovery with the same reply and accepts connections on the ports 19813 and 19814; a
  host with a loopback interface only; and a world in which nothing connects and the
  replies are malformed. In the racing schedule the replies of both ports of the server
  arrive before the probes of the first have resolved.
\<close>

definition hosts25 :: "string list" where
  "hosts25 = map (\<lambda>i. ipv4 10 0 0 i) [1..25]"

definition the_info :: Server4DDiscoveryInfo where
  "the_info = \<lparr> info_host = ''build-mac'', info_service = ''4D Server V'',
                info_database = ''Invoices'', info_port = 19813 \<rparr>"

definition lan_world :: world where
  "lan_world =
     \<lparr> interfaces =
         [(''lo0'', Some [\<lparr> address = ''127.0.0.1'', if_netmask = ''255.0.0.0'',
                           family = ''IPv4'', internal = True \<rparr>]),
          (''en0'', Some [\<lparr> address = ''fe80::1'', if_netmask = ''ffff:ffff:ffff:ffff::'',
                           family = ''IPv6'', internal = False \<rparr>,
                         \<lparr> address = ''192.168.1.50'', if_netmask = ''255.255.255.252'',
                           family = ''IPv4'', internal = False \<rparr>])],
       tcp = (\<lambda>h p t. if h = ''192.168.1.49'' \<and> (p = 19813 \<or> p = 19814) then Some 3 else None),
       udp = (\<lambda>h p t. if h = ''192.168.1.49'' then Message ''4D{Invoices}'' else TimedOut),
       JSON_parse = (\<lambda>s. if s = ''{Invoices}'' then Some the_info else None) \<rparr>"

definition loopback_world :: world where
  "loopback_world =
     \<lparr> interfaces =
         [(''lo0'', Some [\<lparr> address = ''127.0.0.1'', if_netmask = ''255.0.0.0'',
                           family = ''IPv4'', internal = True \<rparr>]),
          (''utun0'', None)],
       tcp = (\<lambda>h p t. Some 1),
       udp = (\<lambda>h p t. TimedOut),
       JSON_parse = (\<lambda>s. None) \<rparr>"

definition silent_world :: world where
  "silent_world =
     \<lparr> interfaces = [], tcp = (\<lambda>h p t. None),
       udp = (\<lambda>h p t. if p = 19813 then Message ''garbage{not json''
                       else if p = 19814 then Message ''x{not json}y''
                       else TimedOut),
       JSON_parse = (\<lambda>s. None) \<rparr>"

definition lan_server :: Server4DScanResult where
  "lan_server =
     \<lparr> host = ''192.168.1.49'', port = 19813, isOpen = True, responseTime = None,
       discoveryInfo = Some the_info, relatedPorts = Some [19813, 19814] \<rparr>"

definition racing_schedule :: "event list" where
  "racing_schedule = [Reply 0, Reply 1, Related 0, Reply 3, Related 1, Reply 2]"

definition lan_effects :: "Server4DScanResult effect list" where
  "lan_effects =
     [Datagram ''192.168.1.49'' 19813, Datagram ''192.168.1.49'' 19814,
      Datagram ''192.168.1.50'' 19813, Datagram ''192.168.1.50'' 19814,
      Connect ''192.168.1.49'' 19811, Connect ''192.168.1.49'' 19812,
      Connect ''192.168.1.49'' 19813, Connect ''192.168.1.49'' 19814,
      Connect ''192.168.1.49'' 19815,
      Connect ''192.168.1.49'' 19811, Connect ''192.168.1.49'' 19812,
      Connect ''192.168.1.49'' 19813, Connect ''192.168.1.49'' 19814,
      Connect ''192.168.1.49'' 19815,
      Progress 4 4 [lan_server]]"

definition found_state :: udp_scan where
  "found_state =
     \<lparr> foundServers = [(''192.168.1.49:19813'', lan_server)], completedChecks = 1, effects = [] \<rparr>"

section \<open>Part II: properties\<close>

subsection \<open>The discovery packet\<close>

lemma build4DDiscoveryPacket_bytes:
  "build4DDiscoveryPacket =
     replicate 32 0 @ utf8 ''4D Server V'' @ replicate 21 0 @
     utf8 ''4DQuicNegociation'' @ replicate 15 0"
  by (simp add: build4DDiscoveryPacket_def Buffer_alloc_def Buffer_write_def utf8_def Let_def
      eval_nat_numeral)

text \<open>
  C1. The discovery packet is exactly 96 bytes long; bytes 0 to 31 are zero; bytes 32 to
  42 are the ASCII codes of \<open>4D Server V\<close> and bytes 43 to 63 are zero; bytes 64 to 80 are
  the ASCII codes of \<open>4DQuicNegociation\<close> and bytes 81 to 95 are zero.
\<close>

theorem C1_discovery_packet_layout:
  "length build4DDiscoveryPacket = 96 \<and>
   take 32 build4DDiscoveryPacket = replicate 32 0 \<and>
   take 11 (drop 32 build4DDiscoveryPacket) = utf8 ''4D Server V'' \<and>
   utf8 ''4D Server V'' = [0x34, 0x44, 0x20, 0x53, 0x65, 0x72, 0x76, 0x65, 0x72, 0x20, 0x56] \<and>
   take 21 (drop 43 build4DDiscoveryPacket) = replicate 21 0 \<and>
   take 17 (drop 64 build4DDiscoveryPacket) = utf8 ''4DQuicNegociation'' \<and>
   utf8 ''4DQuicNegociation'' =
     [0x34, 0x44, 0x51, 0x75, 0x69, 0x63, 0x4E, 0x65, 0x67, 0x6F, 0x63, 0x69, 0x61, 0x74,
      0x69, 0x6F, 0x6E] \<and>
   drop 81 build4DDiscoveryPacket = replicate 15 0"
  by (simp add: build4DDiscoveryPacket_bytes utf8_def)

subsection \<open>Decimal text\<close>

lemma of_char_digit_char: "d < 10 \<Longrightarrow> (of_char (digit_char d) :: nat) = 48 + d"
  by (simp add: digit_char_def)

lemma is_digit_digit_char: "d < 10 \<Longrightarrow> is_digit (digit_char d)"
  by (simp add: is_digit_def of_char_digit_char)

lemma digit_val_digit_char: "d < 10 \<Longrightarrow> digit_val (digit_char d) = d"
  by (simp add: digit_val_def of_char_digit_char)

lemma is_digit_not_punct:
  "is_digit c \<Longrightarrow> c \<noteq> CHR ''.'' \<and> c \<noteq> CHR ''-'' \<and> c \<noteq> CHR ''+'' \<and> c \<noteq> CHR '':''"
  by (auto simp: is_digit_def)

lemma show_nat_digits: "list_all is_digit (show_nat n)"
proof (induction n rule: show_nat.induct)
  case (1 n)
  show ?case
  proof (cases "n < 10")
    case True
    then show ?thesis by (simp add: show_nat.simps [of n] is_digit_digit_char)
  next
    case False
    with 1 show ?thesis by (simp add: show_nat.simps [of n] is_digit_digit_char)
  qed
qed

lemma show_nat_nonempty: "show_nat n \<noteq> []"
  by (subst show_nat.simps) simp

lemma digits_val_snoc: "digits_val (s @ [c]) = 10 * digits_val s + digit_val c"
  by (simp add: digits_val_def)

lemma digits_val_show_nat: "digits_val (show_nat n) = n"
proof (induction n rule: show_nat.induct)
  case (1 n)
  show ?case
  proof (cases "n < 10")
    case True
    then show ?thesis
      by (simp add: show_nat.simps [of n] digits_val_def digit_val_digit_char)
  next
    case False
    with 1 show ?thesis
      by (simp add: show_nat.simps [of n] digits_val_snoc digit_val_digit_char)
  qed
qed

lemma all_digits_show_nat: "all_digits (show_nat n)"
  by (simp add: all_digits_def show_nat_digits show_nat_nonempty)

lemma Number_show_int: "Number (show_int n) = Num n"
proof (cases "n < 0")
  case True
  have "\<not> is_digit CHR ''-''" by (simp add: is_digit_def)
  then have "\<not> all_digits (CHR ''-'' # show_nat (nat (- n)))"
    by (simp add: all_digits_def)
  with True show ?thesis
    by (simp add: Number_def show_int_def all_digits_show_nat digits_val_show_nat)
next
  case False
  then show ?thesis
    by (simp add: Number_def show_int_def all_digits_show_nat digits_val_show_nat show_nat_nonempty)
qed

lemma show_int_inject: "show_int a = show_int b \<Longrightarrow> a = b"
  by (metis Number_show_int number.inject)

lemma show_int_no_dot: "CHR ''.'' \<notin> set (show_int n)"
  using show_nat_digits is_digit_not_punct
  by (auto simp: show_int_def list_all_iff)

lemma show_int_no_colon: "CHR '':'' \<notin> set (show_int n)"
  using show_nat_digits is_digit_not_punct
  by (auto simp: show_int_def list_all_iff)

lemma split_dot_plain: "CHR ''.'' \<notin> set w \<Longrightarrow> split_dot w = [w]"
  by (induction w) auto

lemma split_dot_append:
  "CHR ''.'' \<notin> set w \<Longrightarrow> split_dot (w @ CHR ''.'' # rest) = w # split_dot rest"
  by (induction w) (auto split: list.splits)

subsection \<open>Subnet arithmetic on octets\<close>

text \<open>
  The strings that \<^verbatim>\<open>calculateSubnet\<close> builds with \<^verbatim>\<open>join\<close> are read back unchanged by
  \<^verbatim>\<open>split\<close> and \<^verbatim>\<open>Number\<close>, and on octets the 32-bit operators are the operators on integers.
\<close>

lemma split_ipv4: "map Number (split_dot (ipv4 a b c d)) = [Num a, Num b, Num c, Num d]"
  by (simp add: ipv4_def split_dot_append split_dot_plain show_int_no_dot Number_show_int)

lemma sint_small: "0 \<le> k \<Longrightarrow> k \<le> 255 \<Longrightarrow> sint (word_of_int k :: 32 word) = k"
  by (simp add: sint_sbintrunc' signed_take_bit_int_eq_self)

lemma and_octet_bounds:
  fixes a m :: int
  assumes "0 \<le> a" "a \<le> 255" "0 \<le> m"
  shows "0 \<le> a AND m" and "a AND m \<le> 255"
proof -
  show "0 \<le> a AND m" using assms by simp
  have "a AND m \<le> a" using assms by (simp add: AND_upper1)
  then show "a AND m \<le> 255" using assms by linarith
qed

lemma or_octet_bounds:
  fixes a m :: int
  assumes "0 \<le> a" "a \<le> 255" "0 \<le> m" "m \<le> 255"
  shows "0 \<le> a OR m" and "a OR m \<le> 255"
proof -
  show "0 \<le> a OR m" using assms by simp
  have "a OR m < 2 ^ 8"
    using assms by (intro OR_upper) auto
  then show "a OR m \<le> 255" by simp
qed

lemma network_octet:
  assumes "octet a" "octet m"
  shows "js_and (Some (Num a)) (Some (Num m)) = a AND m" and "octet (a AND m)"
proof -
  have a: "0 \<le> a" "a \<le> 255" and m: "0 \<le> m" using assms by (simp_all add: octet_def)
  have "(word_of_int a :: 32 word) AND word_of_int m = word_of_int (a AND m)"
    by (simp add: of_int_and_eq)
  then show "js_and (Some (Num a)) (Some (Num m)) = a AND m"
    using and_octet_bounds [OF a m] by (simp add: js_and_def sint_small)
  show "octet (a AND m)"
    using and_octet_bounds [OF a m] by (simp add: octet_def)
qed

lemma broadcast_octet:
  assumes "octet n" "octet m"
  shows "js_or (Some (Num n)) (Some (Num (255 - m))) = n OR (255 - m)"
proof -
  have b: "0 \<le> n" "n \<le> 255" "0 \<le> 255 - m" "255 - m \<le> 255"
    using assms by (simp_all add: octet_def)
  have "(word_of_int n :: 32 word) OR word_of_int (255 - m) = word_of_int (n OR (255 - m))"
    by (simp add: of_int_or_eq)
  then show ?thesis
    using or_octet_bounds [OF b] by (simp add: js_or_def sint_small)
qed

lemma add_at3_quad:
  "add_at3 [a, b, c, d] k = [Some (Num a), Some (Num b), Some (Num c), Some (Num (d + k))]"
  by (simp add: add_at3_def eval_nat_numeral)

lemma calculateSubnet_octets:
  assumes ip: "octet a1" "octet a2" "octet a3" "octet a4"
    and nm: "octet m1" "octet m2" "octet m3" "octet m4"
  shows "calculateSubnet (ipv4 a1 a2 a3 a4) (ipv4 m1 m2 m3 m4) =
    \<lparr> localIp = ipv4 a1 a2 a3 a4,
      netmask = ipv4 m1 m2 m3 m4,
      networkAddress = ipv4 (a1 AND m1) (a2 AND m2) (a3 AND m3) (a4 AND m4),
      broadcastAddress = ipv4 ((a1 AND m1) OR (255 - m1)) ((a2 AND m2) OR (255 - m2))
                              ((a3 AND m3) OR (255 - m3)) ((a4 AND m4) OR (255 - m4)),
      firstHost = ipv4 (a1 AND m1) (a2 AND m2) (a3 AND m3) ((a4 AND m4) + 1),
      lastHost = ipv4 ((a1 AND m1) OR (255 - m1)) ((a2 AND m2) OR (255 - m2))
                      ((a3 AND m3) OR (255 - m3)) (((a4 AND m4) OR (255 - m4)) - 1),
      totalHosts = Num ((256 - m1) * (256 - m2) * (256 - m3) * (256 - m4) - 2) \<rparr>"
proof -
  note n = network_octet [OF ip(1) nm(1)] network_octet [OF ip(2) nm(2)]
           network_octet [OF ip(3) nm(3)] network_octet [OF ip(4) nm(4)]
  note b = broadcast_octet [OF n(2) nm(1)] broadcast_octet [OF n(4) nm(2)]
           broadcast_octet [OF n(6) nm(3)] broadcast_octet [OF n(8) nm(4)]
  show ?thesis
    unfolding calculateSubnet_def Let_def split_ipv4
    by (simp add: at_index_def n(1,3,5,7) b ipv4_def add_at3_quad algebra_simps)
qed

lemma ipv4_examples:
  "ipv4 192 168 1 50 = ''192.168.1.50''" "ipv4 255 255 255 0 = ''255.255.255.0''"
  "ipv4 192 168 1 0 = ''192.168.1.0''" "ipv4 192 168 1 255 = ''192.168.1.255''"
  "ipv4 192 168 1 1 = ''192.168.1.1''" "ipv4 192 168 1 254 = ''192.168.1.254''"
  "ipv4 255 255 255 255 = ''255.255.255.255''"
  by code_simp+

lemma octet_numerals: "octet 192" "octet 168" "octet 1" "octet 50" "octet 255" "octet 0"
  by (simp_all add: octet_def)

lemma calculateSubnet_example:
  "calculateSubnet ''192.168.1.50'' ''255.255.255.0'' =
    \<lparr> localIp = ''192.168.1.50'', netmask = ''255.255.255.0'',
      networkAddress = ''192.168.1.0'', broadcastAddress = ''192.168.1.255'',
      firstHost = ''192.168.1.1'', lastHost = ''192.168.1.254'', totalHosts = Num 254 \<rparr>"
  by code_simp

text \<open>
  C9. For an address and a netmask of four octets each, network is ip AND mask octet by
  octet, broadcast is network OR (255 - mask) octet by octet, the first host is the network
  with its last octet plus 1, the last host the broadcast with its last octet minus 1, and
  totalHosts is the product of (256 - maskOctet) minus 2. For 192.168.1.50 with mask
  255.255.255.0 the network is 192.168.1.0, the broadcast 192.168.1.255, the first host
  192.168.1.1, the last host 192.168.1.254, and totalHosts is 254.
\<close>

theorem C9_calculateSubnet:
  assumes "octet a1" "octet a2" "octet a3" "octet a4"
    and "octet m1" "octet m2" "octet m3" "octet m4"
  shows "calculateSubnet (ipv4 a1 a2 a3 a4) (ipv4 m1 m2 m3 m4) =
      \<lparr> localIp = ipv4 a1 a2 a3 a4,
        netmask = ipv4 m1 m2 m3 m4,
        networkAddress = ipv4 (a1 AND m1) (a2 AND m2) (a3 AND m3) (a4 AND m4),
        broadcastAddress = ipv4 ((a1 AND m1) OR (255 - m1)) ((a2 AND m2) OR (255 - m2))
                                ((a3 AND m3) OR (255 - m3)) ((a4 AND m4) OR (255 - m4)),
        firstHost = ipv4 (a1 AND m1) (a2 AND m2) (a3 AND m3) ((a4 AND m4) + 1),
        lastHost = ipv4 ((a1 AND m1) OR (255 - m1)) ((a2 AND m2) OR (255 - m2))
                        ((a3 AND m3) OR (255 - m3)) (((a4 AND m4) OR (255 - m4)) - 1),
        totalHosts = Num ((256 - m1) * (256 - m2) * (256 - m3) * (256 - m4) - 2) \<rparr> \<and>
    calculateSubnet ''192.168.1.50'' ''255.255.255.0'' =
      \<lparr> localIp = ''192.168.1.50'', netmask = ''255.255.255.0'',
        networkAddress = ''192.168.1.0'', broadcastAddress = ''192.168.1.255'',
        firstHost = ''192.168.1.1'', lastHost = ''192.168.1.254'', totalHosts = Num 254 \<rparr>"
  by (rule conjI [OF calculateSubnet_octets [OF assms] calculateSubnet_example])

theorem C9_calculateSubnet_witness:
  "octet 192 \<and> octet 168 \<and> octet 1 \<and> octet 50 \<and> octet 255 \<and> octet 0 \<and>
   ipv4 192 168 1 50 = ''192.168.1.50'' \<and> ipv4 255 255 255 0 = ''255.255.255.0'' \<and>
   calculateSubnet (ipv4 192 168 1 50) (ipv4 255 255 255 0) =
      \<lparr> localIp = ''192.168.1.50'', netmask = ''255.255.255.0'',
        networkAddress = ''192.168.1.0'', broadcastAddress = ''192.168.1.255'',
        firstHost = ''192.168.1.1'', lastHost = ''192.168.1.254'', totalHosts = Num 254 \<rparr>"
proof -
  have "calculateSubnet (ipv4 192 168 1 50) (ipv4 255 255 255 0) =
      \<lparr> localIp = ipv4 192 168 1 50,
        netmask = ipv4 255 255 255 0,
        networkAddress = ipv4 (192 AND 255) (168 AND 255) (1 AND 255) (50 AND 0),
        broadcastAddress = ipv4 ((192 AND 255) OR (255 - 255)) ((168 AND 255) OR (255 - 255))
                                ((1 AND 255) OR (255 - 255)) ((50 AND 0) OR (255 - 0)),
        firstHost = ipv4 (192 AND 255) (168 AND 255) (1 AND 255) ((50 AND 0) + 1),
        lastHost = ipv4 ((192 AND 255) OR (255 - 255)) ((168 AND 255) OR (255 - 255))
                        ((1 AND 255) OR (255 - 255)) (((50 AND 0) OR (255 - 0)) - 1),
        totalHosts = Num ((256 - 255) * (256 - 255) * (256 - 255) * (256 - 0) - 2) \<rparr>"
    using C9_calculateSubnet [OF octet_numerals(1,2,3,4) octet_numerals(5,5,5,6)]
    by (rule conjunct1)
  then show ?thesis
    by (simp add: ipv4_examples octet_numerals)
qed

subsection \<open>The number of hosts, and the subnet of one address\<close>

lemma and_255: "octet a \<Longrightarrow> a AND 255 = a"
proof -
  assume "octet a"
  then have "take_bit 8 a = a"
    by (simp add: octet_def take_bit_int_eq_self)
  moreover have "(255 :: int) = mask 8"
    by (simp add: mask_eq_exp_minus_1)
  ultimately show ?thesis
    by (simp add: take_bit_eq_mask)
qed

lemma capacity_positive:
  assumes "octet m1" "octet m2" "octet m3" "octet m4"
  shows "1 \<le> (256 - m1) * (256 - m2) * (256 - m3) * (256 - m4)"
proof -
  have "1 \<le> 256 - m1" "1 \<le> 256 - m2" "1 \<le> 256 - m3" "1 \<le> 256 - m4"
    using assms by (simp_all add: octet_def)
  then have "1 * 1 \<le> (256 - m1) * (256 - m2)" "1 * 1 \<le> (256 - m3) * (256 - m4)"
    by (intro mult_mono; simp)+
  then have "1 * 1 \<le> ((256 - m1) * (256 - m2)) * ((256 - m3) * (256 - m4))"
    by (intro mult_mono; simp)
  then show ?thesis by (simp add: mult.assoc)
qed

text \<open>
  C4, as the code has it. The claim says that totalHosts is floored at 0; the code computes
  the capacity minus 2 and stops there, so the netmask 255.255.255.255 gives -1.
\<close>

theorem C4_totalHosts_counterexample:
  "totalHosts (calculateSubnet ''192.168.1.50'' ''255.255.255.255'') = Num (- 1)"
  by code_simp

text \<open>
  C4, amended. For an address and a netmask of four octets each, totalHosts is the
  capacity of the subnet (the product of (256 - maskOctet)) minus 2, with no floor: it is
  never below -1, and it is -1 for the netmask 255.255.255.255.
\<close>

theorem C4_totalHosts_amended:
  assumes "octet a1" "octet a2" "octet a3" "octet a4"
    and "octet m1" "octet m2" "octet m3" "octet m4"
  shows "totalHosts (calculateSubnet (ipv4 a1 a2 a3 a4) (ipv4 m1 m2 m3 m4)) =
           Num ((256 - m1) * (256 - m2) * (256 - m3) * (256 - m4) - 2) \<and>
         - 1 \<le> (256 - m1) * (256 - m2) * (256 - m3) * (256 - m4) - 2 \<and>
         totalHosts (calculateSubnet (ipv4 a1 a2 a3 a4) (ipv4 255 255 255 255)) = Num (- 1)"
proof -
  have o: "octet 255" by (simp add: octet_def)
  have "totalHosts (calculateSubnet (ipv4 a1 a2 a3 a4) (ipv4 m1 m2 m3 m4)) =
           Num ((256 - m1) * (256 - m2) * (256 - m3) * (256 - m4) - 2)"
    by (simp add: calculateSubnet_octets [OF assms])
  moreover have "- 1 \<le> (256 - m1) * (256 - m2) * (256 - m3) * (256 - m4) - 2"
    using capacity_positive [OF assms(5-8)] by simp
  moreover have "totalHosts (calculateSubnet (ipv4 a1 a2 a3 a4) (ipv4 255 255 255 255)) = Num (- 1)"
    by (simp add: calculateSubnet_octets [OF assms(1-4) o o o o])
  ultimately show ?thesis by blast
qed

theorem C4_totalHosts_amended_witness:
  "octet 192 \<and> octet 168 \<and> octet 1 \<and> octet 50 \<and> octet 255 \<and> octet 254 \<and>
   totalHosts (calculateSubnet (ipv4 192 168 1 50) (ipv4 255 255 255 254)) = Num 0 \<and>
   totalHosts (calculateSubnet (ipv4 192 168 1 50) (ipv4 255 255 255 255)) = Num (- 1)"
proof -
  have o: "octet 254" by (simp add: octet_def)
  show ?thesis
    using C4_totalHosts_amended [OF octet_numerals(1,2,3,4) octet_numerals(5,5,5) o]
    by (simp add: octet_numerals o)
qed

lemma generateSubnetIPs_single:
  assumes "octet a" "octet b" "octet c" "octet d"
  shows "generateSubnetIPs (calculateSubnet (ipv4 a b c d) (ipv4 255 255 255 255)) = []"
proof -
  have o: "octet 255" by (simp add: octet_def)
  have s: "firstHost (calculateSubnet (ipv4 a b c d) (ipv4 255 255 255 255)) = ipv4 a b c (d + 1)"
    "lastHost (calculateSubnet (ipv4 a b c d) (ipv4 255 255 255 255)) = ipv4 a b c (d - 1)"
    by (simp_all add: calculateSubnet_octets [OF assms o o o o] and_255 assms)
  show ?thesis
    unfolding generateSubnetIPs_def Let_def s split_ipv4
    by (simp add: at_index_def)
qed

text \<open>
  C10. For the netmask 255.255.255.255 and any address, the first host has the last
  octet of the address plus 1 and the last host the last octet minus 1, and the
  enumeration of the hosts of the computed subnet is empty: no address is enumerated.
\<close>

theorem C10_single_address_subnet:
  assumes "octet a" "octet b" "octet c" "octet d"
  shows "firstHost (calculateSubnet (ipv4 a b c d) ''255.255.255.255'') = ipv4 a b c (d + 1) \<and>
         lastHost (calculateSubnet (ipv4 a b c d) ''255.255.255.255'') = ipv4 a b c (d - 1) \<and>
         generateSubnetIPs (calculateSubnet (ipv4 a b c d) ''255.255.255.255'') = []"
proof -
  have o: "octet 255" by (simp add: octet_def)
  have "firstHost (calculateSubnet (ipv4 a b c d) (ipv4 255 255 255 255)) = ipv4 a b c (d + 1)"
    "lastHost (calculateSubnet (ipv4 a b c d) (ipv4 255 255 255 255)) = ipv4 a b c (d - 1)"
    by (simp_all add: calculateSubnet_octets [OF assms o o o o] and_255 assms)
  with generateSubnetIPs_single [OF assms] show ?thesis
    by (simp add: ipv4_examples)
qed

theorem C10_single_address_subnet_witness:
  "octet 192 \<and> octet 168 \<and> octet 1 \<and> octet 0 \<and>
   firstHost (calculateSubnet ''192.168.1.0'' ''255.255.255.255'') = ''192.168.1.1'' \<and>
   lastHost (calculateSubnet ''192.168.1.0'' ''255.255.255.255'') = ''192.168.1.-1'' \<and>
   generateSubnetIPs (calculateSubnet ''192.168.1.0'' ''255.255.255.255'') = []"
proof -
  have e: "ipv4 192 168 1 (0 - 1) = ''192.168.1.-1''" "ipv4 192 168 1 (0 + 1) = ''192.168.1.1''"
    by code_simp+
  show ?thesis
    using C10_single_address_subnet [OF octet_numerals(1,2,3,6)]
    by (simp only: e ipv4_examples octet_numerals simp_thms)
qed

subsection \<open>The scan cache\<close>

text \<open>
  C5. The cache is stale exactly when there is no entry or the time since the timestamp
  of the entry is above the timeout in seconds times 1000. An entry set at time T is,
  with a timeout of 120 seconds, not stale at T + 119 s and stale at T + 121 s.
\<close>

theorem C5_isScanCacheStale:
  "(isScanCacheStale now scanCache ttl \<longleftrightarrow>
      scanCache = None \<or> (\<exists>entry. scanCache = Some entry \<and> now - timestamp entry > ttl * 1000)) \<and>
   \<not> isScanCacheStale (T + 119000) (setScanCache T servers' ports' previous) 120 \<and>
   isScanCacheStale (T + 121000) (setScanCache T servers' ports' previous) 120 \<and>
   \<not> isScanCacheStale (T + 120000) (setScanCache T servers' ports' previous) 120"
  by (cases scanCache) (simp_all add: isScanCacheStale_def setScanCache_def)

subsection \<open>Replies to a discovery\<close>

lemma index_from_none: "index_from c s i = - 1 \<longleftrightarrow> c \<notin> set s" if "0 \<le> i"
  using that by (induction s arbitrary: i) auto

lemma indexOf_none: "indexOf s c = - 1 \<longleftrightarrow> c \<notin> set s"
  by (simp add: indexOf_def index_from_none)

lemma last_index_from_absent: "c \<notin> set s \<Longrightarrow> last_index_from c s i found = found"
  by (induction s arbitrary: i found) auto

lemma last_index_from_nonneg:
  "0 \<le> i \<Longrightarrow> - 1 \<le> found \<Longrightarrow> c \<in> set s \<Longrightarrow> 0 \<le> last_index_from c s i found"
proof (induction s arbitrary: i found)
  case Nil
  then show ?case by simp
next
  case (Cons x xs)
  show ?case
  proof (cases "c \<in> set xs")
    case True
    with Cons show ?thesis by simp
  next
    case False
    with Cons.prems have "x = c" by simp
    with False Cons.prems show ?thesis by (simp add: last_index_from_absent)
  qed
qed

lemma lastIndexOf_none: "lastIndexOf s c = - 1 \<longleftrightarrow> c \<notin> set s"
proof
  assume "lastIndexOf s c = - 1"
  then show "c \<notin> set s"
    using last_index_from_nonneg [of 0 "- 1" c s] by (auto simp: lastIndexOf_def)
next
  assume "c \<notin> set s"
  then show "lastIndexOf s c = - 1"
    by (simp add: lastIndexOf_def last_index_from_absent)
qed

lemma parse_reply_no_brace:
  "CHR ''{'' \<notin> set msgStr \<or> CHR ''}'' \<notin> set msgStr \<Longrightarrow> parse_reply parse msgStr = Inr None"
  using indexOf_none [of msgStr "CHR ''{''"] lastIndexOf_none [of msgStr "CHR ''}''"]
  by (auto simp: parse_reply_def Let_def)

lemma parse_reply_throws:
  assumes "CHR ''{'' \<in> set msgStr" "CHR ''}'' \<in> set msgStr"
    and "parse (js_substring msgStr (indexOf msgStr CHR ''{'') (lastIndexOf msgStr CHR ''}'' + 1)) = None"
  shows "parse_reply parse msgStr = Inl SyntaxError"
  using assms indexOf_none [of msgStr "CHR ''{''"] lastIndexOf_none [of msgStr "CHR ''}''"]
  by (simp add: parse_reply_def Let_def)

text \<open>
  C7. A reply arrives only when the datagram went out, that is for a port between 1 and
  65535. When the reply has no opening brace or no closing brace, and when \<^verbatim>\<open>JSON.parse\<close>
  throws on the text from the first opening brace to the last closing brace, the
  discovery resolves with \<open>null\<close>: the exception is caught in the handler. The discovery
  resolves with \<open>null\<close> for the reply \<open>garbage{not json\<close>, whatever the parser. The message
  handler itself gives \<open>null\<close> in both cases, for every payload and every parser.
\<close>

theorem C7_malformed_reply:
  "(1 \<le> port' \<and> port' \<le> 65535 \<and> udp w host' port' timeout = Message msgStr \<and>
      (CHR ''{'' \<notin> set msgStr \<or> CHR ''}'' \<notin> set msgStr)
    \<longrightarrow> discover4DServer w host' port' timeout = Inr None) \<and>
   (1 \<le> port' \<and> port' \<le> 65535 \<and> udp w host' port' timeout = Message msgStr \<and>
      JSON_parse w (js_substring msgStr (indexOf msgStr CHR ''{'')
                      (lastIndexOf msgStr CHR ''}'' + 1)) = None
    \<longrightarrow> discover4DServer w host' port' timeout = Inr None) \<and>
   (1 \<le> port' \<and> port' \<le> 65535 \<and> udp w host' port' timeout = Message ''garbage{not json''
    \<longrightarrow> discover4DServer w host' port' timeout = Inr None) \<and>
   (CHR ''{'' \<notin> set msgStr \<or> CHR ''}'' \<notin> set msgStr \<longrightarrow> on_message parse msgStr = None) \<and>
   (parse (js_substring msgStr (indexOf msgStr CHR ''{'') (lastIndexOf msgStr CHR ''}'' + 1)) = None
    \<longrightarrow> on_message parse msgStr = None)"
proof -
  have braces: "on_message f m = None"
    if "CHR ''{'' \<notin> set m \<or> CHR ''}'' \<notin> set m" for f m
    using that by (simp add: on_message_def parse_reply_no_brace)
  have throws: "on_message f m = None"
    if a: "f (js_substring m (indexOf m CHR ''{'') (lastIndexOf m CHR ''}'' + 1)) = None" for f m
  proof (cases "CHR ''{'' \<in> set m \<and> CHR ''}'' \<in> set m")
    case True
    with a show ?thesis
      by (simp add: on_message_def parse_reply_throws)
  next
    case False
    then have "CHR ''{'' \<notin> set m \<or> CHR ''}'' \<notin> set m" by blast
    then show ?thesis by (rule braces)
  qed
  have resolved: "discover4DServer w host' port' timeout = Inr (on_message (JSON_parse w) m)"
    if "1 \<le> port' \<and> port' \<le> 65535 \<and> udp w host' port' timeout = Message m" for m
    using that by (simp add: discover4DServer_def)
  show ?thesis
  proof (intro conjI impI)
    assume "1 \<le> port' \<and> port' \<le> 65535 \<and> udp w host' port' timeout = Message msgStr \<and>
      (CHR ''{'' \<notin> set msgStr \<or> CHR ''}'' \<notin> set msgStr)"
    then show "discover4DServer w host' port' timeout = Inr None"
      using resolved [of msgStr] braces [of msgStr "JSON_parse w"] by simp
  next
    assume "1 \<le> port' \<and> port' \<le> 65535 \<and> udp w host' port' timeout = Message msgStr \<and>
      JSON_parse w (js_substring msgStr (indexOf msgStr CHR ''{'')
                      (lastIndexOf msgStr CHR ''}'' + 1)) = None"
    then show "discover4DServer w host' port' timeout = Inr None"
      using resolved [of msgStr] throws [of "JSON_parse w" msgStr] by simp
  next
    assume "1 \<le> port' \<and> port' \<le> 65535 \<and>
      udp w host' port' timeout = Message ''garbage{not json''"
    moreover have "on_message (JSON_parse w) ''garbage{not json'' = None"
      by (rule braces) simp
    ultimately show "discover4DServer w host' port' timeout = Inr None"
      using resolved [of "''garbage{not json''"] by simp
  next
    assume "CHR ''{'' \<notin> set msgStr \<or> CHR ''}'' \<notin> set msgStr"
    then show "on_message parse msgStr = None" by (rule braces)
  next
    assume "parse (js_substring msgStr (indexOf msgStr CHR ''{'')
        (lastIndexOf msgStr CHR ''}'' + 1)) = None"
    then show "on_message parse msgStr = None" by (rule throws)
  qed
qed

theorem C7_malformed_reply_witness:
  "(1 :: int) \<le> 19813 \<and> (19813 :: int) \<le> 65535 \<and>
   udp silent_world ''10.0.0.7'' 19813 1000 = Message ''garbage{not json'' \<and>
   CHR ''}'' \<notin> set ''garbage{not json'' \<and>
   discover4DServer silent_world ''10.0.0.7'' 19813 1000 = Inr None \<and>
   (1 :: int) \<le> 19814 \<and> (19814 :: int) \<le> 65535 \<and>
   udp silent_world ''10.0.0.7'' 19814 1000 = Message ''x{not json}y'' \<and>
   js_substring ''x{not json}y'' (indexOf ''x{not json}y'' CHR ''{'')
      (lastIndexOf ''x{not json}y'' CHR ''}'' + 1) = ''{not json}'' \<and>
   JSON_parse silent_world ''{not json}'' = None \<and>
   parse_reply (JSON_parse silent_world) ''x{not json}y'' = Inl SyntaxError \<and>
   discover4DServer silent_world ''10.0.0.7'' 19814 1000 = Inr None \<and>
   on_message (JSON_parse silent_world) ''garbage{not json'' = None \<and>
   on_message (JSON_parse silent_world) ''x{not json}y'' = None"
proof -
  have u: "udp silent_world ''10.0.0.7'' 19813 1000 = Message ''garbage{not json''"
    "udp silent_world ''10.0.0.7'' 19814 1000 = Message ''x{not json}y''"
    by (simp_all add: silent_world_def)
  have s: "js_substring ''x{not json}y'' (indexOf ''x{not json}y'' CHR ''{'')
      (lastIndexOf ''x{not json}y'' CHR ''}'' + 1) = ''{not json}''"
    by (simp add: js_substring_def indexOf_def lastIndexOf_def)
  have p: "JSON_parse silent_world ''{not json}'' = None"
    by (simp add: silent_world_def)
  have t: "parse_reply (JSON_parse silent_world) ''x{not json}y'' = Inl SyntaxError"
    by (rule parse_reply_throws) (simp_all add: silent_world_def)
  note c7a = C7_malformed_reply [of 19813 silent_world "''10.0.0.7''" 1000 "''garbage{not json''"
      "JSON_parse silent_world"]
  note c7b = C7_malformed_reply [of 19814 silent_world "''10.0.0.7''" 1000 "''x{not json}y''"
      "JSON_parse silent_world"]
  have "discover4DServer silent_world ''10.0.0.7'' 19813 1000 = Inr None"
    using c7a u by simp
  moreover have "discover4DServer silent_world ''10.0.0.7'' 19814 1000 = Inr None"
    using c7b u s p by simp
  moreover have "on_message (JSON_parse silent_world) ''garbage{not json'' = None"
    using c7a by simp
  moreover have "on_message (JSON_parse silent_world) ''x{not json}y'' = None"
    using c7b s p by simp
  ultimately show ?thesis using u s p t by simp
qed

subsection \<open>Promises and sockets\<close>

text \<open>
  \<^verbatim>\<open>Promise.all\<close> resolves exactly when every promise resolves. A probe resolves exactly
  when the timeout is not negative and the port is between 0 and 65535, and a discovery
  exactly when the port is between 1 and 65535; they reject with a \<^verbatim>\<open>RangeError\<close> otherwise.
\<close>

lemma Promise_all_resolved:
  "(\<And>x. x \<in> set xs \<Longrightarrow> f x = Inr (g x)) \<Longrightarrow> Promise_all (map f xs) = Inr (map g xs)"
  by (induction xs) simp_all

lemma Promise_all_Inr: "Promise_all ps = Inr xs \<Longrightarrow> ps = map Inr xs"
proof (induction ps arbitrary: xs)
  case Nil
  then show ?case by simp
next
  case (Cons p ps)
  then show ?case
    by (cases p; cases "Promise_all ps") auto
qed

lemma Promise_all_rejected: "Inl e \<in> set ps \<Longrightarrow> \<exists>e'. Promise_all ps = Inl e'"
proof (induction ps)
  case Nil
  then show ?case by simp
next
  case (Cons p ps)
  then show ?case
    by (cases p; cases "Promise_all ps") auto
qed

lemma checkPort_resolves:
  "0 \<le> timeout \<Longrightarrow> 0 \<le> p \<Longrightarrow> p \<le> 65535 \<Longrightarrow>
   checkPort w h p timeout = Inr (port_result w h p timeout)"
  by (simp add: checkPort_def port_result_def split: option.splits)

lemma checkPort_Inr:
  "checkPort w h p timeout = Inr r \<Longrightarrow>
   r = port_result w h p timeout \<and> 0 \<le> timeout \<and> 0 \<le> p \<and> p \<le> 65535"
  by (auto simp: checkPort_def port_result_def split: if_splits option.splits)

lemma checkPort_rejects:
  "timeout < 0 \<or> p < 0 \<or> 65535 < p \<Longrightarrow> checkPort w h p timeout = Inl RangeError"
  by (auto simp: checkPort_def)

lemma checkPort_Inl: "checkPort w h p timeout = Inl e \<Longrightarrow> e = RangeError"
  by (auto simp: checkPort_def split: if_splits option.splits)

lemma discover4DServer_rejects:
  "p < 1 \<or> 65535 < p \<Longrightarrow> discover4DServer w h p timeout = Inl RangeError"
  by (auto simp: discover4DServer_def)

lemma discover4DServer_resolves:
  "1 \<le> p \<Longrightarrow> p \<le> 65535 \<Longrightarrow> \<exists>reply. discover4DServer w h p timeout = Inr reply"
  by (simp add: discover4DServer_def split: udp_outcome.splits)

lemma discover4DServer_Inr:
  "discover4DServer w h p timeout = Inr reply \<Longrightarrow> 1 \<le> p \<and> p \<le> 65535"
  by (auto simp: discover4DServer_def split: if_splits)

lemma discover4DServer_Inl: "discover4DServer w h p timeout = Inl e \<Longrightarrow> e = RangeError"
  by (auto simp: discover4DServer_def split: if_splits udp_outcome.splits)

lemma set_targets_of: "set (targets_of hosts ports) = set hosts \<times> set ports"
  by (auto simp: targets_of_def)

lemma started_Nil [simp]: "started w timeout [] = []"
  by (simp add: started_def)

lemma started_Cons [simp]:
  "started w timeout ((ip, p) # targets) =
     (case checkPort w ip p timeout of Inl e \<Rightarrow> [] | Inr r \<Rightarrow> [Connect ip p]) @
     started w timeout targets"
  by (simp add: started_def)

lemma started_resolved:
  "\<forall>t \<in> set targets. \<exists>r. checkPort w (fst t) (snd t) timeout = Inr r \<Longrightarrow>
   started w timeout targets = map (\<lambda>(ip, port'). Connect ip port') targets"
  by (induction targets) (auto split: sum.splits)

lemma started_connect:
  "Connect h q \<in> set (started w timeout targets) \<Longrightarrow> (h, q) \<in> set targets"
  by (induction targets) (auto split: sum.splits)

lemma progress_calls_append [simp]:
  "progress_calls (xs @ ys) = progress_calls xs @ progress_calls ys"
  by (induction xs rule: progress_calls.induct) simp_all

lemma progress_calls_started [simp]: "progress_calls (started w timeout targets) = []"
  by (induction targets) (auto split: sum.splits)

lemma batch_resolved:
  assumes "0 \<le> timeout" and "\<forall>p \<in> set ports. 0 \<le> p \<and> p \<le> 65535"
  shows "Promise_all (map (\<lambda>(ip, port'). checkPort w ip port' timeout) (targets_of batch ports)) =
           Inr (map (\<lambda>(ip, port'). port_result w ip port' timeout) (targets_of batch ports))"
    and "started w timeout (targets_of batch ports) = connects batch ports"
proof -
  have ok: "checkPort w ip p timeout = Inr (port_result w ip p timeout)"
    if "(ip, p) \<in> set (targets_of batch ports)" for ip p
    using that assms by (simp add: set_targets_of checkPort_resolves)
  show "Promise_all (map (\<lambda>(ip, port'). checkPort w ip port' timeout) (targets_of batch ports)) =
           Inr (map (\<lambda>(ip, port'). port_result w ip port' timeout) (targets_of batch ports))"
    by (rule Promise_all_resolved) (auto simp: ok)
  show "started w timeout (targets_of batch ports) = connects batch ports"
    unfolding connects_def by (rule started_resolved) (auto simp: ok)
qed

subsection \<open>The batches of the TCP scan\<close>

text \<open>
  With a positive batch size the slice of a batch is \<open>take\<close> after \<open>drop\<close>, and the loop has
  a closed form: started at batch \<open>k\<close> with results \<open>acc\<close> and effects \<open>eff\<close>, it appends the
  open results of the remaining hosts and the effects of the remaining batches.
\<close>

lemma js_slice_batch:
  assumes "0 < batchSize"
  shows "js_slice xs (int n) (int n + batchSize) = take (nat batchSize) (drop n xs)"
proof (cases "n < length xs")
  case True
  have "nat (min (int n + batchSize) (int (length xs)) - int n) =
      min (nat batchSize) (length (drop n xs))"
    using True assms by (simp add: min_def) linarith
  moreover have "take (min (nat batchSize) (length (drop n xs))) (drop n xs) =
      take (nat batchSize) (drop n xs)"
    by (simp add: min_def)
  ultimately show ?thesis
    using True assms by (simp add: js_slice_def Let_def)
next
  case False
  with assms show ?thesis
    by (auto simp: js_slice_def Let_def min_def)
qed

lemma targets_of_append [simp]:
  "targets_of (xs @ ys) ports = targets_of xs ports @ targets_of ys ports"
  by (simp add: targets_of_def)

lemma targets_of_Nil [simp]: "targets_of [] ports = []"
  by (simp add: targets_of_def)

lemma probe_results_append [simp]:
  "probe_results w ports timeout (xs @ ys) =
     probe_results w ports timeout xs @ probe_results w ports timeout ys"
  by (simp add: probe_results_def)

lemma probe_results_Nil [simp]: "probe_results w ports timeout [] = []"
  by (simp add: probe_results_def)

lemma batch_count_less: "0 < b \<Longrightarrow> k < batch_count n b \<longleftrightarrow> k * b < n"
proof -
  assume b: "0 < b"
  have "k < batch_count n b \<longleftrightarrow> Suc k \<le> (n + b - 1) div b"
    by (simp add: batch_count_def Suc_le_eq)
  also have "\<dots> \<longleftrightarrow> Suc k * b \<le> n + b - 1"
    using b by (simp add: less_eq_div_iff_mult_less_eq)
  also have "\<dots> \<longleftrightarrow> k * b < n"
    using b by auto
  finally show ?thesis .
qed

lemma batch_effects_shift:
  assumes "k0 < k"
  shows "batch_effects w ips ports timeout b
           (acc @ probe_results w ports timeout (take b (drop (k0 * b) ips))) (Suc k0) k =
         batch_effects w ips ports timeout b acc k0 k"
proof -
  from assms obtain m where k: "k = Suc k0 + m"
    using less_iff_Suc_add by auto
  have "(k + 1) * b - k0 * b = b + ((k + 1) * b - Suc k0 * b)"
    by (simp add: k algebra_simps)
  then have "take ((k + 1) * b - k0 * b) (drop (k0 * b) ips) =
      take b (drop (k0 * b) ips) @ take ((k + 1) * b - Suc k0 * b) (drop (Suc k0 * b) ips)"
    by (simp add: take_add add.commute)
  then show ?thesis
    by (simp add: batch_effects_def)
qed

lemma scanSubnet_loop_closed:
  assumes bs: "0 < batchSize" and b: "b = nat batchSize"
    and valid: "0 \<le> timeout" "\<forall>p \<in> set ports. 0 \<le> p \<and> p \<le> 65535"
  shows "length ips \<le> k * b + fuel \<Longrightarrow>
     scanSubnet_loop fuel w ips ports timeout batchSize True (int (k * b)) (acc, eff) =
       Some (eff @ concat (map (batch_effects w ips ports timeout b acc k)
                               [k..<batch_count (length ips) b]),
             Inr (acc @ probe_results w ports timeout (drop (k * b) ips)))"
proof (induction fuel arbitrary: k acc eff)
  case 0
  then have "\<not> k * b < length ips" by simp
  moreover from this have "\<not> k < batch_count (length ips) b"
    using bs b by (simp add: batch_count_less)
  ultimately show ?case by (simp flip: of_nat_mult)
next
  case (Suc fuel)
  have bpos: "0 < b" using bs b by simp
  show ?case
  proof (cases "k * b < length ips")
    case False
    moreover from this have "\<not> k < batch_count (length ips) b"
      using bpos by (simp add: batch_count_less)
    ultimately show ?thesis by (simp flip: of_nat_mult)
  next
    case True
    then have kb: "k < batch_count (length ips) b"
      using bpos by (simp add: batch_count_less)
    define batch where "batch = take b (drop (k * b) ips)"
    define acc' where "acc' = acc @ probe_results w ports timeout batch"
    define eff' where "eff' = eff @ batch_effects w ips ports timeout b acc k k"
    have slice: "js_slice ips (int (k * b)) (int (k * b) + batchSize) = batch"
      unfolding batch_def b by (rule js_slice_batch [OF bs])
    have next_i: "int (k * b) + batchSize = int (Suc k * b)"
      using bs b by simp
    have min_i: "min (int (Suc k * b)) (int (length ips)) = int (min (Suc k * b) (length ips))"
      by (simp only: of_nat_min)
    have slice': "js_slice ips (int (k * b)) (int (Suc k * b)) = batch"
      using slice by (simp only: next_i)
    have diff: "Suc k * b - k * b = b"
      by simp
    have one: "scanSubnet_loop (Suc fuel) w ips ports timeout batchSize True (int (k * b)) (acc, eff) =
        scanSubnet_loop fuel w ips ports timeout batchSize True (int (Suc k * b)) (acc', eff')"
      using True
      by (simp add: slice' diff next_i min_i Let_def acc'_def eff'_def batch_effects_def
          batch_resolved [OF valid] probe_results_def batch_def
          del: of_nat_mult of_nat_add of_nat_Suc mult_Suc of_nat_min)
    have fuel: "length ips \<le> Suc k * b + fuel"
      using Suc.prems bpos by simp
    have "drop (Suc k * b) ips = drop b (drop (k * b) ips)"
      by (simp add: add.commute)
    then have split: "drop (k * b) ips = batch @ drop (Suc k * b) ips"
      by (simp only: batch_def append_take_drop_id)
    have "probe_results w ports timeout (drop (k * b) ips) =
        probe_results w ports timeout batch @ probe_results w ports timeout (drop (Suc k * b) ips)"
      by (metis split probe_results_append)
    then have results: "acc' @ probe_results w ports timeout (drop (Suc k * b) ips) =
        acc @ probe_results w ports timeout (drop (k * b) ips)"
      by (simp add: acc'_def)
    have shift: "map (batch_effects w ips ports timeout b acc' (Suc k)) [Suc k..<batch_count (length ips) b] =
        map (batch_effects w ips ports timeout b acc k) [Suc k..<batch_count (length ips) b]"
      by (rule map_cong) (auto simp: acc'_def batch_def batch_effects_shift)
    have "scanSubnet_loop fuel w ips ports timeout batchSize True (int (Suc k * b)) (acc', eff') =
        Some (eff' @ concat (map (batch_effects w ips ports timeout b acc' (Suc k))
                                 [Suc k..<batch_count (length ips) b]),
              Inr (acc' @ probe_results w ports timeout (drop (Suc k * b) ips)))"
      by (rule Suc.IH [OF fuel])
    with one show ?thesis
      by (simp add: results shift eff'_def upt_conv_Cons [OF kb] del: mult_Suc)
  qed
qed

lemma progress_calls_connects [simp]: "progress_calls (connects hosts ports) = []"
proof -
  have "progress_calls (map (\<lambda>(ip, port'). Connect ip port') ts) = []" for ts :: "(string \<times> int) list"
    by (induction ts) auto
  then show ?thesis by (simp add: connects_def)
qed

lemma progress_calls_batches:
  "progress_calls (concat (map (batch_effects w ips ports timeout b acc k0) ks)) =
     map (\<lambda>k. (int (min ((k + 1) * b) (length ips)), int (length ips),
               acc @ probe_results w ports timeout (take ((k + 1) * b - k0 * b) (drop (k0 * b) ips))))
         ks"
  by (induction ks) (simp_all add: batch_effects_def)

lemma sorted_map_upt:
  fixes f :: "nat \<Rightarrow> int"
  assumes "\<And>i j. i \<le> j \<Longrightarrow> f i \<le> f j"
  shows "sorted (map f [m..<n])"
proof -
  have "sorted_wrt (\<lambda>x y. f x \<le> f y) [m..<n]"
    by (rule sorted_wrt_mono_rel [of _ "(<)"]) (auto intro: assms)
  then show ?thesis by (simp add: sorted_map)
qed

lemma host_probe_results:
  "r \<in> set (probe_results w ports timeout hosts) \<Longrightarrow> host r \<in> set hosts"
  by (auto simp: probe_results_def targets_of_def port_result_def split: option.splits)

lemma scanSubnet_loop_run:
  assumes "0 < batchSize" and "length ips \<le> fuel"
    and "0 \<le> timeout" and "\<forall>p \<in> set ports. 0 \<le> p \<and> p \<le> 65535"
  shows "scanSubnet_loop fuel w ips ports timeout batchSize True 0 ([], []) =
     Some (concat (map (batch_effects w ips ports timeout (nat batchSize) [] 0)
                       [0..<batch_count (length ips) (nat batchSize)]),
           Inr (probe_results w ports timeout ips))"
  using scanSubnet_loop_closed [OF assms(1) refl assms(3,4), of ips 0 fuel w "[]" "[]"] assms(2)
  by simp

text \<open>
  C6. With a timeout that is not negative and ports between 0 and 65535, so that no probe
  rejects, and with a positive batch size (and fuel for every batch), the loop of
  \<^verbatim>\<open>scanSubnet\<close> returns, and its effects are, batch after batch, the connections of the
  batch followed by one progress call. The call of batch \<open>k\<close> reports \<open>min ((k + 1) * batchSize) n\<close> hosts
  scanned of \<open>n\<close>, and the open results of exactly the first that many hosts. The scanned
  counts never decrease. For 25 hosts and a batch size of 20 there are two calls, with the
  counts 20 and 25, and the results of the first call are those of the first 20 hosts
  (none is of a host after the twentieth, the addresses being distinct).
  \<^verbatim>\<open>scanSubnet\<close> runs this loop on the addresses of the local subnet.
\<close>

theorem C6_scanSubnet_progress:
  assumes "0 < batchSize" and "length ips \<le> fuel"
    and "0 \<le> timeout" and "\<forall>p \<in> set ports. 0 \<le> p \<and> p \<le> 65535"
  shows "\<exists>results effs.
     scanSubnet_loop fuel w ips ports timeout batchSize True 0 ([], []) = Some (effs, Inr results) \<and>
     results = probe_results w ports timeout ips \<and>
     effs = concat (map (batch_effects w ips ports timeout (nat batchSize) [] 0)
                        [0..<batch_count (length ips) (nat batchSize)]) \<and>
     progress_calls effs =
       map (\<lambda>k. (int (min ((k + 1) * nat batchSize) (length ips)), int (length ips),
                 probe_results w ports timeout (take ((k + 1) * nat batchSize) ips)))
           [0..<batch_count (length ips) (nat batchSize)] \<and>
     sorted (map fst (progress_calls effs)) \<and>
     (length ips = 25 \<and> batchSize = 20 \<longrightarrow>
        map fst (progress_calls effs) = [20, 25] \<and>
        snd (snd (hd (progress_calls effs))) = probe_results w ports timeout (take 20 ips) \<and>
        (\<forall>r \<in> set (snd (snd (hd (progress_calls effs)))). host r \<in> set (take 20 ips)) \<and>
        (distinct ips \<longrightarrow>
           (\<forall>r \<in> set (snd (snd (hd (progress_calls effs)))). host r \<notin> set (drop 20 ips)))) \<and>
     (getLocalNetworkInfo (interfaces w) = Some subnetInfo \<and> ips = generateSubnetIPs subnetInfo
        \<longrightarrow> scanSubnet fuel w ports timeout batchSize True = Some (effs, Inr results))"
proof -
  define b where "b = nat batchSize"
  define nb where "nb = batch_count (length ips) b"
  define effs where "effs = concat (map (batch_effects w ips ports timeout b [] 0) [0..<nb])"
  define calls where "calls = map (\<lambda>k. (int (min ((k + 1) * b) (length ips)), int (length ips),
                 probe_results w ports timeout (take ((k + 1) * b) ips))) [0..<nb]"
  have run: "scanSubnet_loop fuel w ips ports timeout batchSize True 0 ([], []) =
      Some (effs, Inr (probe_results w ports timeout ips))"
    unfolding effs_def nb_def b_def by (rule scanSubnet_loop_run [OF assms])
  have calls: "progress_calls effs = calls"
    by (simp add: effs_def calls_def progress_calls_batches)
  have "map fst calls = map (\<lambda>k. int (min ((k + 1) * b) (length ips))) [0..<nb]"
    by (simp add: calls_def comp_def)
  moreover have "sorted (map (\<lambda>k. int (min ((k + 1) * b) (length ips))) [0..<nb])"
    by (rule sorted_map_upt) (simp add: min_le_iff_disj)
  ultimately have mono: "sorted (map fst (progress_calls effs))"
    by (simp add: calls)
  have example: "map fst (progress_calls effs) = [20, 25] \<and>
        snd (snd (hd (progress_calls effs))) = probe_results w ports timeout (take 20 ips) \<and>
        (\<forall>r \<in> set (snd (snd (hd (progress_calls effs)))). host r \<in> set (take 20 ips)) \<and>
        (distinct ips \<longrightarrow>
           (\<forall>r \<in> set (snd (snd (hd (progress_calls effs)))). host r \<notin> set (drop 20 ips)))"
    if "length ips = 25 \<and> batchSize = 20"
  proof -
    from that have "b = 20" "nb = 2"
      by (simp_all add: b_def nb_def batch_count_def)
    then have "[0..<nb] = [0, 1]"
      by (simp add: upt_conv_Cons)
    with that \<open>b = 20\<close> have "calls = [(20, 25, probe_results w ports timeout (take 20 ips)),
        (25, 25, probe_results w ports timeout (take 40 ips))]"
      by (simp add: calls_def)
    then have first: "map fst (progress_calls effs) = [20, 25]"
      "snd (snd (hd (progress_calls effs))) = probe_results w ports timeout (take 20 ips)"
      by (simp_all add: calls)
    have inside: "\<forall>r \<in> set (snd (snd (hd (progress_calls effs)))). host r \<in> set (take 20 ips)"
      by (simp add: first host_probe_results)
    have "\<forall>r \<in> set (snd (snd (hd (progress_calls effs)))). host r \<notin> set (drop 20 ips)"
      if "distinct ips"
      using inside set_take_disj_set_drop_if_distinct [OF that, of 20 20] by auto
    with first inside show ?thesis by blast
  qed
  have scan: "scanSubnet fuel w ports timeout batchSize True =
      Some (effs, Inr (probe_results w ports timeout ips))"
    if "getLocalNetworkInfo (interfaces w) = Some subnetInfo \<and> ips = generateSubnetIPs subnetInfo"
    using that run by (simp add: scanSubnet_def)
  show ?thesis
  proof (intro exI conjI)
    show "scanSubnet_loop fuel w ips ports timeout batchSize True 0 ([], []) =
        Some (effs, Inr (probe_results w ports timeout ips))"
      by (rule run)
    show "probe_results w ports timeout ips = probe_results w ports timeout ips"
      by (rule refl)
    show "effs = concat (map (batch_effects w ips ports timeout (nat batchSize) [] 0)
                        [0..<batch_count (length ips) (nat batchSize)])"
      by (simp only: effs_def nb_def b_def)
    show "progress_calls effs =
       map (\<lambda>k. (int (min ((k + 1) * nat batchSize) (length ips)), int (length ips),
                 probe_results w ports timeout (take ((k + 1) * nat batchSize) ips)))
           [0..<batch_count (length ips) (nat batchSize)]"
      using calls by (simp only: calls_def nb_def b_def)
    show "sorted (map fst (progress_calls effs))"
      by (rule mono)
    show "length ips = 25 \<and> batchSize = 20 \<longrightarrow>
        map fst (progress_calls effs) = [20, 25] \<and>
        snd (snd (hd (progress_calls effs))) = probe_results w ports timeout (take 20 ips) \<and>
        (\<forall>r \<in> set (snd (snd (hd (progress_calls effs)))). host r \<in> set (take 20 ips)) \<and>
        (distinct ips \<longrightarrow>
           (\<forall>r \<in> set (snd (snd (hd (progress_calls effs)))). host r \<notin> set (drop 20 ips)))"
      using example by (rule impI)
    show "getLocalNetworkInfo (interfaces w) = Some subnetInfo \<and> ips = generateSubnetIPs subnetInfo
        \<longrightarrow> scanSubnet fuel w ports timeout batchSize True =
              Some (effs, Inr (probe_results w ports timeout ips))"
      using scan by (rule impI)
  qed
qed

text \<open>
  Without a positive batch size the loop never returns a list while a host is left: it
  runs forever, unless a probe rejects.
\<close>

lemma scanSubnet_loop_never_ends:
  "batchSize \<le> 0 \<Longrightarrow> i < int (length ips) \<Longrightarrow>
   scanSubnet_loop fuel w ips ports timeout batchSize onProgress i st \<noteq> Some (effs, Inr results)"
proof (induction fuel arbitrary: i st)
  case 0
  then show ?case by simp
next
  case (Suc fuel)
  from Suc.prems have "i + batchSize < int (length ips)" by simp
  from Suc.IH [OF Suc.prems(1) this] Suc.prems(2) show ?case
    by (simp add: Let_def split: prod.splits sum.splits)
qed

text \<open>
  When a probe of the first batch rejects, because the timeout is negative or a port is
  outside 0 to 65535, the scan rejects with the \<^verbatim>\<open>RangeError\<close>: the connections of the
  other probes of the batch have been started, and there is no progress call.
\<close>

lemma Promise_all_Inl: "Promise_all ps = Inl e \<Longrightarrow> Inl e \<in> set ps"
proof (induction ps)
  case Nil
  then show ?case by simp
next
  case (Cons p ps)
  then show ?case
    by (cases p; cases "Promise_all ps") auto
qed

lemma batch_rejected:
  assumes "ip \<in> set batch" and "p \<in> set ports" and "timeout < 0 \<or> p < 0 \<or> 65535 < p"
  shows "Promise_all (map (\<lambda>(ip, port'). checkPort w ip port' timeout) (targets_of batch ports)) =
           Inl RangeError"
proof -
  define ps where "ps = map (\<lambda>(ip, port'). checkPort w ip port' timeout) (targets_of batch ports)"
  from assms(1,2) have "(ip, p) \<in> set (targets_of batch ports)"
    by (simp add: set_targets_of)
  then have "checkPort w ip p timeout \<in> set ps"
    unfolding ps_def by (auto simp: image_iff intro!: bexI [of _ "(ip, p)"])
  with checkPort_rejects [OF assms(3), of w ip] have "Inl RangeError \<in> set ps"
    by simp
  from Promise_all_rejected [OF this] obtain e where e: "Promise_all ps = Inl e"
    by blast
  from Promise_all_Inl [OF this] obtain ip' p' where "checkPort w ip' p' timeout = Inl e"
    by (auto simp: ps_def)
  then have "e = RangeError"
    by (rule checkPort_Inl)
  with e show ?thesis by (simp add: ps_def)
qed

lemma scanSubnet_loop_rejects:
  assumes "0 < batchSize" and "ips \<noteq> []"
    and "p \<in> set ports" and "timeout < 0 \<or> p < 0 \<or> 65535 < p"
  shows "scanSubnet_loop (Suc fuel) w ips ports timeout batchSize onProgress 0 ([], []) =
           Some (started w timeout (targets_of (take (nat batchSize) ips) ports), Inl RangeError) \<and>
         progress_calls (started w timeout (targets_of (take (nat batchSize) ips) ports) ::
           ServerScanResult effect list) = []"
proof -
  have slice: "js_slice ips 0 batchSize = take (nat batchSize) ips"
    using js_slice_batch [OF assms(1), of ips 0] by simp
  from assms(1,2) have "hd ips \<in> set (take (nat batchSize) ips)"
    by (cases ips) (simp_all add: take_Cons')
  from batch_rejected [OF this assms(3,4)] assms(2) show ?thesis
    by (simp add: slice Let_def)
qed

lemma scanSubnet_rejects_example:
  "scanSubnet_loop 25 silent_world hosts25 [70000] 500 20 True 0 ([], []) =
     Some ([], Inl RangeError)"
proof -
  have "hosts25 \<noteq> []"
    by (simp add: hosts25_def upto.simps)
  from scanSubnet_loop_rejects [of 20 hosts25 70000 "[70000]" 500 24 silent_world True, OF _ this]
  have "scanSubnet_loop 25 silent_world hosts25 [70000] 500 20 True 0 ([], []) =
      Some (started silent_world 500 (targets_of (take 20 hosts25) [70000]), Inl RangeError)"
    by simp
  moreover have "started silent_world 500 (targets_of hs [70000]) = ([] :: ServerScanResult effect list)" for hs
    by (induction hs) (simp_all add: started_def targets_of_def checkPort_def)
  ultimately show ?thesis by simp
qed

lemma length_hosts25: "length hosts25 = 25"
  by (simp add: hosts25_def)

lemma lan_world_subnet:
  "getLocalNetworkInfo (interfaces lan_world) =
     Some (calculateSubnet ''192.168.1.50'' ''255.255.255.252'')"
  by (simp add: lan_world_def)

lemma lan_world_ips:
  "generateSubnetIPs (calculateSubnet ''192.168.1.50'' ''255.255.255.252'') =
     [''192.168.1.49'', ''192.168.1.50'']"
  by code_simp

theorem C6_scanSubnet_progress_witness:
  "0 < (20 :: int) \<and> length hosts25 = 25 \<and> (0 :: int) \<le> 500 \<and>
   (0 :: int) \<le> 19813 \<and> (19813 :: int) \<le> 65535 \<and>
   (\<exists>results effs.
      scanSubnet_loop 25 silent_world hosts25 [19813] 500 20 True 0 ([], []) = Some (effs, Inr results) \<and>
      map fst (progress_calls effs) = [20, 25] \<and>
      snd (snd (hd (progress_calls effs))) = probe_results silent_world [19813] 500 (take 20 hosts25)) \<and>
   getLocalNetworkInfo (interfaces lan_world) =
     Some (calculateSubnet ''192.168.1.50'' ''255.255.255.252'') \<and>
   (\<exists>results effs.
      scanSubnet 2 lan_world [19813] 500 1 True = Some (effs, Inr results) \<and>
      map fst (progress_calls effs) = [1, 2])"
proof -
  have "\<exists>results effs.
      scanSubnet_loop 25 silent_world hosts25 [19813] 500 20 True 0 ([], []) = Some (effs, Inr results) \<and>
      map fst (progress_calls effs) = [20, 25] \<and>
      snd (snd (hd (progress_calls effs))) = probe_results silent_world [19813] 500 (take 20 hosts25)"
  proof -
    have "0 < (20 :: int)" "length hosts25 \<le> 25" "(0 :: int) \<le> 500"
      "\<forall>p \<in> set [19813 :: int]. 0 \<le> p \<and> p \<le> 65535"
      by (simp_all add: length_hosts25)
    from C6_scanSubnet_progress [OF this, of silent_world
        "calculateSubnet ''192.168.1.50'' ''255.255.255.252''"]
    obtain results effs where
      "scanSubnet_loop 25 silent_world hosts25 [19813] 500 20 True 0 ([], []) = Some (effs, Inr results)"
      and "length hosts25 = 25 \<and> (20 :: int) = 20 \<longrightarrow>
        map fst (progress_calls effs) = [20, 25] \<and>
        snd (snd (hd (progress_calls effs))) = probe_results silent_world [19813] 500 (take 20 hosts25) \<and>
        (\<forall>r \<in> set (snd (snd (hd (progress_calls effs)))). host r \<in> set (take 20 hosts25)) \<and>
        (distinct hosts25 \<longrightarrow>
           (\<forall>r \<in> set (snd (snd (hd (progress_calls effs)))). host r \<notin> set (drop 20 hosts25)))"
      by (elim exE conjE) (rule that)
    with length_hosts25 show ?thesis
      by (intro exI [of _ results] exI [of _ effs]) simp
  qed
  moreover have "\<exists>results effs.
      scanSubnet 2 lan_world [19813] 500 1 True = Some (effs, Inr results) \<and>
      map fst (progress_calls effs) = [1, 2]"
  proof -
    define ips where "ips = generateSubnetIPs (calculateSubnet ''192.168.1.50'' ''255.255.255.252'')"
    have len: "length ips = 2"
      by (simp add: ips_def lan_world_ips)
    have calls: "map fst (map (\<lambda>k. (int (min ((k + 1) * nat 1) (length ips)), int (length ips),
                 probe_results lan_world [19813] 500 (take ((k + 1) * nat 1) ips)))
           [0..<batch_count (length ips) (nat 1)]) = [1, 2]"
      by (simp add: len batch_count_def upt_conv_Cons)
    have "0 < (1 :: int)" "length ips \<le> 2" "(0 :: int) \<le> 500"
      "\<forall>p \<in> set [19813 :: int]. 0 \<le> p \<and> p \<le> 65535"
      by (simp_all add: len)
    from C6_scanSubnet_progress [OF this, of lan_world
        "calculateSubnet ''192.168.1.50'' ''255.255.255.252''"]
    obtain results effs where
      "progress_calls effs = map (\<lambda>k. (int (min ((k + 1) * nat 1) (length ips)), int (length ips),
                 probe_results lan_world [19813] 500 (take ((k + 1) * nat 1) ips)))
           [0..<batch_count (length ips) (nat 1)]"
      and "getLocalNetworkInfo (interfaces lan_world) =
             Some (calculateSubnet ''192.168.1.50'' ''255.255.255.252'') \<and>
           ips = generateSubnetIPs (calculateSubnet ''192.168.1.50'' ''255.255.255.252'')
        \<longrightarrow> scanSubnet 2 lan_world [19813] 500 1 True = Some (effs, Inr results)"
      by (elim exE conjE) (rule that)
    with calls lan_world_subnet ips_def show ?thesis
      by (intro exI [of _ results] exI [of _ effs]) simp
  qed
  ultimately show ?thesis
    using length_hosts25 lan_world_subnet by simp
qed

subsection \<open>Scans without a network\<close>

lemma first_external_None:
  "first_external addrs = None \<longleftrightarrow>
     \<not> list_ex (\<lambda>addr. family addr = ''IPv4'' \<and> \<not> internal addr) addrs"
  by (induction addrs) auto

lemma getLocalNetworkInfo_None:
  "getLocalNetworkInfo ifs = None \<longleftrightarrow> \<not> has_external_ipv4 ifs"
proof (induction ifs rule: getLocalNetworkInfo.induct)
  case 1
  then show ?case by (simp add: has_external_ipv4_def)
next
  case (2 name rest)
  then show ?case by (simp add: has_external_ipv4_def)
next
  case (3 name addresses rest)
  then show ?case
    by (cases "first_external addresses")
       (simp_all add: has_external_ipv4_def first_external_None [symmetric])
qed

lemma checkPort_interfaces [simp]:
  "checkPort (w\<lparr>interfaces := ifs\<rparr>) h p t = checkPort w h p t"
  by (simp add: checkPort_def)

lemma started_interfaces [simp]:
  "started (w\<lparr>interfaces := ifs\<rparr>) timeout targets = started w timeout targets"
  by (simp add: started_def)

lemma scanHostPorts_interfaces [simp]:
  "scanHostPorts (w\<lparr>interfaces := ifs\<rparr>) h ports timeout = scanHostPorts w h ports timeout"
  by (simp add: scanHostPorts_def)

lemma scanHosts_loop_interfaces:
  "scanHosts_loop (w\<lparr>interfaces := ifs\<rparr>) len ports timeout onProgress i st hosts =
   scanHosts_loop w len ports timeout onProgress i st hosts"
  by (induction hosts arbitrary: i st) (simp_all add: Let_def split: prod.splits sum.splits)

lemma scanHostPorts_resolves:
  assumes "0 \<le> timeout" and "\<forall>p \<in> set ports. 0 \<le> p \<and> p \<le> 65535"
  shows "scanHostPorts w h ports timeout =
           Inr (filter isOpen (map (\<lambda>p. port_result w h p timeout) ports))"
proof -
  have "Promise_all (map (\<lambda>port'. checkPort w h port' timeout) ports) =
      Inr (map (\<lambda>p. port_result w h p timeout) ports)"
    by (rule Promise_all_resolved) (simp add: assms checkPort_resolves)
  then show ?thesis by (simp add: scanHostPorts_def)
qed

lemma scanHosts_loop_returns:
  assumes "0 \<le> timeout" and "\<forall>p \<in> set ports. 0 \<le> p \<and> p \<le> 65535"
  shows "\<exists>effs results.
     scanHosts_loop w len ports timeout onProgress i st hosts = (effs, Inr results)"
  by (induction hosts arbitrary: i st)
     (simp_all add: scanHostPorts_resolves [OF assms] Let_def split: prod.splits)

text \<open>
  C8. When no interface has an IPv4 address that is not internal, \<^verbatim>\<open>getLocalNetworkInfo\<close>
  returns \<open>null\<close>, and \<^verbatim>\<open>scanSubnet\<close> and \<^verbatim>\<open>scanSubnetUDP\<close> throw with no effect at all: no
  connection, no datagram, no progress call. What \<^verbatim>\<open>scanHosts\<close> does and returns does not
  depend on the interfaces, and it returns its results all the same when no probe rejects
  (a timeout that is not negative, ports between 0 and 65535).
\<close>

theorem C8_no_local_network:
  assumes "\<not> has_external_ipv4 (interfaces w)"
  shows "getLocalNetworkInfo (interfaces w) = None \<and>
         scanSubnet fuel w ports timeout batchSize onProgress = Some ([], Inl NoNetworkInformation) \<and>
         scanSubnetUDP w ports timeout batchSize onProgress schedules =
           Some ([], Inl NoNetworkInformation) \<and>
         (0 \<le> timeout \<and> (\<forall>p \<in> set ports. 0 \<le> p \<and> p \<le> 65535) \<longrightarrow>
            (\<exists>effs results. scanHosts w hosts ports timeout onProgress = (effs, Inr results))) \<and>
         scanHosts (w\<lparr>interfaces := ifs\<rparr>) hosts ports timeout onProgress =
           scanHosts w hosts ports timeout onProgress"
proof -
  from assms have none: "getLocalNetworkInfo (interfaces w) = None"
    by (simp add: getLocalNetworkInfo_None)
  have "\<exists>effs results. scanHosts w hosts ports timeout onProgress = (effs, Inr results)"
    if "0 \<le> timeout \<and> (\<forall>p \<in> set ports. 0 \<le> p \<and> p \<le> 65535)"
    unfolding scanHosts_def using that by (intro scanHosts_loop_returns) simp_all
  moreover have "scanHosts (w\<lparr>interfaces := ifs\<rparr>) hosts ports timeout onProgress =
           scanHosts w hosts ports timeout onProgress"
    by (simp add: scanHosts_def scanHosts_loop_interfaces)
  ultimately show ?thesis
    using none by (simp add: scanSubnet_def scanSubnetUDP_def)
qed

theorem C8_no_local_network_witness:
  "\<not> has_external_ipv4 (interfaces loopback_world) \<and>
   scanSubnet 0 loopback_world [19813] 500 20 True = Some ([], Inl NoNetworkInformation) \<and>
   scanSubnetUDP loopback_world [19813] 500 30 True [] = Some ([], Inl NoNetworkInformation) \<and>
   (0 :: int) \<le> 500 \<and> (0 :: int) \<le> 19813 \<and> (19813 :: int) \<le> 65535 \<and>
   (\<exists>effs results. scanHosts loopback_world [''10.0.0.7''] [19813] 500 True = (effs, Inr results)) \<and>
   scanHosts loopback_world [''10.0.0.7''] [19813] 500 True =
     ([Connect ''10.0.0.7'' 19813,
       Progress 1 1 [\<lparr> host = ''10.0.0.7'', port = 19813, isOpen = True, responseTime = Some 1 \<rparr>]],
      Inr [\<lparr> host = ''10.0.0.7'', port = 19813, isOpen = True, responseTime = Some 1 \<rparr>])"
proof -
  have h: "\<not> has_external_ipv4 (interfaces loopback_world)"
    by (simp add: has_external_ipv4_def loopback_world_def)
  have run: "scanHosts loopback_world [''10.0.0.7''] [19813] 500 True =
     ([Connect ''10.0.0.7'' 19813,
       Progress 1 1 [\<lparr> host = ''10.0.0.7'', port = 19813, isOpen = True, responseTime = Some 1 \<rparr>]],
      Inr [\<lparr> host = ''10.0.0.7'', port = 19813, isOpen = True, responseTime = Some 1 \<rparr>])"
    by (simp add: scanHosts_def scanHostPorts_def checkPort_def loopback_world_def Let_def)
  note c8 = C8_no_local_network [OF h, of 0 "[19813]" 500 20 True "[]" "[''10.0.0.7'']"]
  have valid: "(0 :: int) \<le> 500 \<and> (\<forall>p \<in> set [19813 :: int]. 0 \<le> p \<and> p \<le> 65535)"
    by simp
  with c8 [THEN conjunct2, THEN conjunct2, THEN conjunct2, THEN conjunct1]
  have "\<exists>effs results. scanHosts loopback_world [''10.0.0.7''] [19813] 500 True = (effs, Inr results)"
    by (rule mp)
  with c8 C8_no_local_network [OF h, of _ "[19813]" 500 30 True "[]"] h valid run
  show ?thesis by simp
qed

text \<open>
  With a port outside 0 to 65535 the first probe rejects, and \<^verbatim>\<open>scanHosts\<close> with it.
\<close>

lemma scanHosts_rejects_example:
  "scanHosts loopback_world [''10.0.0.7''] [70000] 500 True = ([], Inl RangeError)"
  by (simp add: scanHosts_def scanHostPorts_def checkPort_def Let_def)

subsection \<open>The UDP scan: what the map holds\<close>

text \<open>
  Both parts of a callback keep the invariant of the batch, whatever the order of the
  events; so does a whole schedule, a batch and the loop over the batches.
\<close>

lemma set_js_slice: "set (js_slice xs a b) \<subseteq> set xs"
proof -
  have "set (take n (drop m xs)) \<subseteq> set xs" for n m
    using set_take_subset [of n "drop m xs"] set_drop_subset [of m xs] by blast
  then show ?thesis by (simp add: js_slice_def Let_def)
qed

lemma related_candidates_bounds:
  "q \<in> set (related_candidates p) \<Longrightarrow> 1 \<le> q \<and> q \<le> 65535 \<and> p - 2 \<le> q \<and> q \<le> p + 2"
  unfolding related_candidates_def set_filter set_map set_upto by auto

lemma started_elem:
  "e \<in> set (started w timeout targets) \<Longrightarrow> \<exists>h q. e = Connect h q \<and> (h, q) \<in> set targets"
  by (induction targets) (auto split: sum.splits)

lemma connects_ok:
  "list_all connect_ok
     (started w timeout (map (\<lambda>relatedPort. (ip, relatedPort)) (related_candidates p)))"
  unfolding list_all_iff
proof
  fix e
  assume "e \<in> set (started w timeout (map (\<lambda>relatedPort. (ip, relatedPort)) (related_candidates p)))"
  from started_elem [OF this] obtain h q where "e = Connect h q" "q \<in> set (related_candidates p)"
    by auto
  with related_candidates_bounds [of q p] show "connect_ok e" by simp
qed

lemma sent_Nil [simp]: "sent w timeout [] = []"
  by (simp add: sent_def)

lemma sent_Cons [simp]:
  "sent w timeout ((ip, p) # targets) =
     (case discover4DServer w ip p timeout of Inl e \<Rightarrow> [] | Inr r \<Rightarrow> [Datagram ip p]) @
     sent w timeout targets"
  by (simp add: sent_def)

lemma sent_ok: "list_all connect_ok (sent w timeout targets)"
  by (induction targets) (auto split: sum.splits)

lemma Promise_all_values:
  assumes "Promise_all (map f xs) = Inr ys"
    and "\<And>x r. x \<in> set xs \<Longrightarrow> f x = Inr r \<Longrightarrow> r = g x"
  shows "ys = map g xs"
proof -
  from Promise_all_Inr [OF assms(1)] have eq: "map f xs = map Inr ys" .
  then have len: "length ys = length xs"
    by (metis length_map)
  show ?thesis
  proof (rule nth_equalityI)
    show "length ys = length (map g xs)" by (simp add: len)
  next
    fix i assume i: "i < length ys"
    from eq have "map f xs ! i = map Inr ys ! i" by simp
    with i len have "f (xs ! i) = Inr (ys ! i)" by simp
    with assms(2) [of "xs ! i" "ys ! i"] i len show "ys ! i = map g xs ! i" by simp
  qed
qed

lemma related_resolved:
  assumes "Promise_all (map (\<lambda>relatedPort. checkPort w ip relatedPort timeout)
                            (related_candidates p)) = Inr tcpResults"
  shows "tcpResults = related_results w timeout ip p"
  unfolding related_results_def
  by (rule Promise_all_values [OF assms]) (simp add: checkPort_Inr)

lemma infos_nth:
  assumes "map (\<lambda>(ip, p). discover4DServer w ip p timeout) targets = map Inr infos"
    and "i < length targets"
  shows "at_index infos i = Some (infos ! i)"
    and "discover4DServer w (fst (targets ! i)) (snd (targets ! i)) timeout = Inr (infos ! i)"
proof -
  from assms(1) have len: "length infos = length targets"
    by (metis length_map)
  with assms(2) show "at_index infos i = Some (infos ! i)"
    by (simp add: at_index_def)
  from assms(1) have "map (\<lambda>(ip, p). discover4DServer w ip p timeout) targets ! i = map Inr infos ! i"
    by simp
  with assms(2) len
  show "discover4DServer w (fst (targets ! i)) (snd (targets ! i)) timeout = Inr (infos ! i)"
    by (simp add: case_prod_beta)
qed


lemma map_has_update: "map_has (AList.update k v m) k' \<longleftrightarrow> k' = k \<or> map_has m k'"
  using dom_update [of k v m] by (auto simp: map_has_def)

lemma replied_mono:
  assumes "replied w timeout s target"
    and "\<And>k. map_has (foundServers s) k \<Longrightarrow> map_has (foundServers s') k"
  shows "replied w timeout s' target"
  using assms by (auto simp: replied_def split: sum.splits option.splits)

lemma task_ok_mono:
  assumes "task_ok w timeout s target t"
    and "\<And>k. map_has (foundServers s) k \<Longrightarrow> map_has (foundServers s') k"
  shows "task_ok w timeout s' target t"
  using assms replied_mono [of w timeout s target s']
  by (auto simp: task_ok_def split: task.splits)

lemma tasks_update:
  assumes all: "list_all2 (task_ok w timeout s) targets tasks"
    and i: "i < length targets"
    and new: "task_ok w timeout s' (targets ! i) t"
    and mono: "\<And>k. map_has (foundServers s) k \<Longrightarrow> map_has (foundServers s') k"
  shows "list_all2 (task_ok w timeout s') targets (tasks[i := t])"
proof -
  from all have "list_all2 (task_ok w timeout s') targets tasks"
    by (rule list_all2_mono) (rule task_ok_mono, assumption, rule mono)
  from list_all2_update_cong [OF this new, of i] show ?thesis
    by simp
qed

lemma on_reply_inv:
  assumes inv: "batch_inv w timeout ips ports targets (s, tasks)"
    and i: "i < length targets"
    and reply: "discover4DServer w (fst (targets ! i)) (snd (targets ! i)) timeout = Inr reply"
    and res: "on_reply w timeout (fst (targets ! i)) reply i (s, tasks) = Inr st'"
  shows "batch_inv w timeout ips ports targets st'"
proof -
  define ip where "ip = fst (targets ! i)"
  define s1 where "s1 = s\<lparr>completedChecks := completedChecks s + 1\<rparr>"
  have f1: "foundServers s1 = foundServers s" and e1: "effects s1 = effects s"
    by (simp_all add: s1_def)
  from inv have sinv: "scan_inv w timeout ips ports s"
    and all: "list_all2 (task_ok w timeout s) targets tasks"
    by (simp_all add: batch_inv_def)
  have sinv1: "scan_inv w timeout ips ports s1"
    using sinv by (simp add: scan_inv_def f1 e1)
  show ?thesis
  proof (cases reply)
    case None
    with res have eq: "st' = (s1, tasks[i := Done])"
      by (simp add: on_reply_def s1_def)
    have "task_ok w timeout s1 (targets ! i) Done"
      using reply None by (simp add: task_ok_def replied_def)
    from tasks_update [OF all i this] sinv1 show ?thesis
      by (simp add: eq batch_inv_def f1)
  next
    case (Some info)
    show ?thesis
    proof (cases "map_has (foundServers s) (server_key ip (info_port info))")
      case True
      with res Some have eq: "st' = (s1, tasks[i := Done])"
        by (simp add: on_reply_def s1_def ip_def)
      have "task_ok w timeout s1 (targets ! i) Done"
        using reply Some True by (simp add: task_ok_def replied_def f1 ip_def)
      from tasks_update [OF all i this] sinv1 show ?thesis
        by (simp add: eq batch_inv_def f1)
    next
      case False
      define s2 where "s2 = s1\<lparr>effects := effects s1 @
          started w timeout (map (\<lambda>relatedPort. (ip, relatedPort)) (related_candidates (info_port info)))\<rparr>"
      have f2: "foundServers s2 = foundServers s"
        by (simp add: s2_def f1)
      from res Some False obtain tcpResults where
        pa: "Promise_all (map (\<lambda>relatedPort. checkPort w ip relatedPort timeout)
                              (related_candidates (info_port info))) = Inr tcpResults"
        and eq: "st' = (s2, tasks[i := Probing info tcpResults])"
        by (auto simp: on_reply_def s1_def s2_def ip_def Let_def split: sum.splits)
      from related_resolved [OF pa]
      have results: "tcpResults = related_results w timeout ip (info_port info)" .
      have sinv2: "scan_inv w timeout ips ports s2"
        using sinv1 connects_ok [of w timeout ip "info_port info"]
        by (simp add: scan_inv_def s2_def)
      have "task_ok w timeout s2 (targets ! i) (Probing info tcpResults)"
        using reply Some results by (simp add: task_ok_def ip_def)
      from tasks_update [OF all i this] sinv2 show ?thesis
        by (simp add: eq batch_inv_def f2)
    qed
  qed
qed

lemma on_related_inv:
  assumes inv: "batch_inv w timeout ips ports targets (s, tasks)"
    and sub: "set targets \<subseteq> set ips \<times> set ports"
    and i: "i < length targets"
    and probing: "tasks ! i = Probing info tcpResults"
  shows "batch_inv w timeout ips ports targets
           (on_related (fst (targets ! i)) i info tcpResults (s, tasks))"
proof -
  obtain ip p where t: "targets ! i = (ip, p)" by (cases "targets ! i")
  from inv have sinv: "scan_inv w timeout ips ports s"
    and all: "list_all2 (task_ok w timeout s) targets tasks"
    by (simp_all add: batch_inv_def)
  from all i have "task_ok w timeout s (targets ! i) (tasks ! i)"
    by (simp add: list_all2_conv_all_nth)
  with probing t have reply: "discover4DServer w ip p timeout = Inr (Some info)"
    and results: "tcpResults = related_results w timeout ip (info_port info)"
    by (simp_all add: task_ok_def)
  from sub i t have mem: "ip \<in> set ips" "p \<in> set ports"
    using nth_mem [OF i] by auto
  define key where "key = server_key ip (info_port info)"
  define s' where "s' = s\<lparr>foundServers :=
      AList.update key (server_result ip info tcpResults) (foundServers s)\<rparr>"
  have eq: "on_related (fst (targets ! i)) i info tcpResults (s, tasks) = (s', tasks[i := Done])"
    by (simp add: on_related_def t s'_def key_def Let_def)
  have entry: "from_reply w timeout ips ports (key, server_result ip info tcpResults)"
    unfolding from_reply_def using mem reply results
    by (intro bexI [of _ ip] bexI [of _ p]) (simp_all add: key_def)
  have "set (AList.update key v m) \<subseteq> insert (key, v) (set m)" for v and m :: "(string \<times> Server4DScanResult) list"
    by (induction m) auto
  with sinv entry have sinv': "scan_inv w timeout ips ports s'"
    by (auto simp: scan_inv_def s'_def distinct_update list_all_iff)
  have mono: "\<And>k. map_has (foundServers s) k \<Longrightarrow> map_has (foundServers s') k"
    by (simp add: s'_def map_has_update)
  have "task_ok w timeout s' (targets ! i) Done"
    using reply by (simp add: task_ok_def replied_def t s'_def map_has_update key_def)
  from tasks_update [OF all i this mono] sinv' show ?thesis
    by (simp add: eq batch_inv_def)
qed

lemma step_inv:
  assumes inv: "batch_inv w timeout ips ports targets st"
    and sub: "set targets \<subseteq> set ips \<times> set ports"
    and infos: "map (\<lambda>(ip, p). discover4DServer w ip p timeout) targets = map Inr infos"
    and step: "step w timeout targets infos ev st = Some (Inr st')"
  shows "batch_inv w timeout ips ports targets st'"
proof -
  obtain s tasks where st: "st = (s, tasks)" by (cases st)
  show ?thesis
  proof (cases ev)
    case (Reply i)
    with step st obtain reply where i: "i < length targets"
      and at: "at_index infos i = Some reply"
      and res: "on_reply w timeout (fst (targets ! i)) reply i (s, tasks) = Inr st'"
      by (auto simp: step_def split: if_splits option.splits)
    from infos_nth [OF infos i] at
    have "discover4DServer w (fst (targets ! i)) (snd (targets ! i)) timeout = Inr reply"
      by simp
    from on_reply_inv [OF inv [unfolded st] i this res] show ?thesis .
  next
    case (Related i)
    with step st obtain info tcpResults where "i < length targets"
      and "at_index tasks i = Some (Probing info tcpResults)"
      and "st' = on_related (fst (targets ! i)) i info tcpResults (s, tasks)"
      by (auto simp: step_def split: if_splits option.splits task.splits)
    moreover from this have "tasks ! i = Probing info tcpResults"
      by (simp add: at_index_def split: if_splits)
    ultimately show ?thesis
      using on_related_inv [OF inv [unfolded st] sub] by simp
  qed
qed

lemma run_events_inv:
  assumes "batch_inv w timeout ips ports targets st"
    and "set targets \<subseteq> set ips \<times> set ports"
    and "map (\<lambda>(ip, p). discover4DServer w ip p timeout) targets = map Inr infos"
    and "run_events w timeout targets infos schedule st = Some (Inr st')"
  shows "batch_inv w timeout ips ports targets st'"
  using assms
proof (induction schedule arbitrary: st)
  case Nil
  then show ?case by simp
next
  case (Cons ev evs)
  from Cons.prems(4) obtain st1 where s1: "step w timeout targets infos ev st = Some (Inr st1)"
    and rest: "run_events w timeout targets infos evs st1 = Some (Inr st')"
    by (auto split: option.splits sum.splits)
  from step_inv [OF Cons.prems(1,2,3) s1] have "batch_inv w timeout ips ports targets st1" .
  from Cons.IH [OF this Cons.prems(2,3) rest] show ?case .
qed

lemma step_keys:
  assumes "step w timeout targets infos ev (s, tasks) = Some (Inr (s', tasks'))"
    and "map_has (foundServers s) k"
  shows "map_has (foundServers s') k"
  using assms
  by (cases ev)
     (auto simp: step_def on_reply_def on_related_def Let_def map_has_update
           split: if_splits option.splits task.splits prod.splits sum.splits)

lemma run_events_keys:
  assumes "run_events w timeout targets infos schedule (s, tasks) = Some (Inr (s', tasks'))"
    and "map_has (foundServers s) k"
  shows "map_has (foundServers s') k"
  using assms
proof (induction schedule arbitrary: s tasks)
  case Nil
  then show ?case by simp
next
  case (Cons ev evs)
  from Cons.prems(1) obtain s1 tasks1 where
    s1: "step w timeout targets infos ev (s, tasks) = Some (Inr (s1, tasks1))"
    and rest: "run_events w timeout targets infos evs (s1, tasks1) = Some (Inr (s', tasks'))"
    by (auto split: option.splits sum.splits)
  from step_keys [OF s1 Cons.prems(2)] Cons.IH [OF rest] show ?case by blast
qed

lemma run_batch_inv:
  assumes sinv: "scan_inv w timeout ips ports s"
    and sub: "set targets \<subseteq> set ips \<times> set ports"
    and run: "run_batch w timeout targets schedule s = Some (Inr s')"
  shows "scan_inv w timeout ips ports s'"
    and "list_all (replied w timeout s') targets"
    and "map_has (foundServers s) k \<Longrightarrow> map_has (foundServers s') k"
proof -
  define s0 where "s0 = s\<lparr>effects := effects s @ sent w timeout targets\<rparr>"
  from run obtain infos tasks where
    pa: "Promise_all (map (\<lambda>(ip, p). discover4DServer w ip p timeout) targets) = Inr infos"
    and ev: "run_events w timeout targets infos schedule
      (s0, replicate (length targets) Pending) = Some (Inr (s', tasks))"
    and fin: "list_all (\<lambda>t. t = Done) tasks"
    by (auto simp: run_batch_def s0_def Let_def split: option.splits if_splits sum.splits)
  from Promise_all_Inr [OF pa]
  have infos: "map (\<lambda>(ip, p). discover4DServer w ip p timeout) targets = map Inr infos" .
  from sinv sent_ok [of w timeout targets] have "scan_inv w timeout ips ports s0"
    by (simp add: scan_inv_def s0_def)
  moreover have "list_all2 (task_ok w timeout s0) targets (replicate (length targets) Pending)"
    by (simp add: list_all2_conv_all_nth task_ok_def)
  ultimately have "batch_inv w timeout ips ports targets (s0, replicate (length targets) Pending)"
    by (simp add: batch_inv_def)
  from run_events_inv [OF this sub infos ev] have inv: "scan_inv w timeout ips ports s'"
    and all: "list_all2 (task_ok w timeout s') targets tasks"
    by (simp_all add: batch_inv_def)
  show "scan_inv w timeout ips ports s'" by (rule inv)
  show "list_all (replied w timeout s') targets"
    unfolding list_all_length
  proof (intro allI impI)
    fix i assume i: "i < length targets"
    with all have "task_ok w timeout s' (targets ! i) (tasks ! i)" and "i < length tasks"
      by (simp_all add: list_all2_conv_all_nth)
    moreover from fin \<open>i < length tasks\<close> have "tasks ! i = Done"
      by (simp add: list_all_length)
    ultimately show "replied w timeout s' (targets ! i)"
      by (simp add: task_ok_def)
  qed
  show "map_has (foundServers s') k" if "map_has (foundServers s) k"
    using run_events_keys [OF ev] that by (simp add: s0_def)
qed

lemma scanSubnetUDP_loop_inv:
  assumes "scan_inv w timeout ips ports s"
    and "scanSubnetUDP_loop w ips ports timeout batchSize onProgress ipIdx s schedules = Some (Inr s')"
  shows "scan_inv w timeout ips ports s'"
  using assms
proof (induction schedules arbitrary: ipIdx s)
  case Nil
  then show ?case by (simp split: if_splits)
next
  case (Cons schedule schedules)
  show ?case
  proof (cases "ipIdx < int (length ips)")
    case False
    with Cons.prems show ?thesis by simp
  next
    case True
    define targets where "targets = targets_of (js_slice ips ipIdx (ipIdx + batchSize)) ports"
    have sub: "set targets \<subseteq> set ips \<times> set ports"
      using set_js_slice [of ips ipIdx "ipIdx + batchSize"]
      by (auto simp: targets_def set_targets_of)
    from True Cons.prems(2) obtain s1 where b: "run_batch w timeout targets schedule s = Some (Inr s1)"
      and rest: "scanSubnetUDP_loop w ips ports timeout batchSize onProgress (ipIdx + batchSize)
          (if onProgress
           then s1\<lparr>effects := effects s1 @
                  [Progress (min (completedChecks s1) (int (length ips) * int (length ports)))
                            (int (length ips) * int (length ports))
                            (map_values (foundServers s1))]\<rparr>
           else s1) schedules = Some (Inr s')"
      by (auto simp: targets_def Let_def split: option.splits sum.splits)
    from run_batch_inv(1) [OF Cons.prems(1) sub b]
    have "scan_inv w timeout ips ports
          (if onProgress
           then s1\<lparr>effects := effects s1 @
                  [Progress (min (completedChecks s1) (int (length ips) * int (length ports)))
                            (int (length ips) * int (length ports))
                            (map_values (foundServers s1))]\<rparr>
           else s1)"
      by (simp add: scan_inv_def)
    from Cons.IH [OF this rest] show ?thesis .
  qed
qed

subsection \<open>The run with a race on the two-host subnet\<close>

lemma digit_chars:
  "digit_char 0 = CHR ''0''" "digit_char 1 = CHR ''1''" "digit_char 2 = CHR ''2''"
  "digit_char 3 = CHR ''3''" "digit_char 4 = CHR ''4''" "digit_char 5 = CHR ''5''"
  "digit_char 6 = CHR ''6''" "digit_char 7 = CHR ''7''" "digit_char 8 = CHR ''8''"
  "digit_char 9 = CHR ''9''" "digit_char (Suc 0) = CHR ''1''"
  by code_simp+

lemma show_nat_rec:
  "n < 10 \<Longrightarrow> show_nat n = [digit_char n]"
  "10 \<le> n \<Longrightarrow> show_nat n = show_nat (n div 10) @ [digit_char (n mod 10)]"
  by (subst show_nat.simps, simp)+

lemma lan_key: "server_key ''192.168.1.49'' 19813 = ''192.168.1.49:19813''"
  by (simp add: server_key_def show_int_def show_nat_rec digit_chars)

lemma lan_discover:
  "1 \<le> p \<Longrightarrow> p \<le> 65535 \<Longrightarrow>
   discover4DServer lan_world h p t =
     (if h = ''192.168.1.49'' then Inr (Some the_info) else Inr None)"
proof -
  have "parse_reply (JSON_parse lan_world) ''4D{Invoices}'' = Inr (Some the_info)"
    by (simp add: parse_reply_def indexOf_def lastIndexOf_def js_substring_def lan_world_def)
  then show "1 \<le> p \<Longrightarrow> p \<le> 65535 \<Longrightarrow>
      discover4DServer lan_world h p t =
        (if h = ''192.168.1.49'' then Inr (Some the_info) else Inr None)"
    by (simp add: discover4DServer_def on_message_def lan_world_def)
qed

lemma lan_checkPort:
  "0 \<le> t \<Longrightarrow> 0 \<le> p \<Longrightarrow> p \<le> 65535 \<Longrightarrow>
   checkPort lan_world h p t =
     Inr (if h = ''192.168.1.49'' \<and> (p = 19813 \<or> p = 19814)
          then \<lparr> host = h, port = p, isOpen = True, responseTime = Some 3 \<rparr>
          else \<lparr> host = h, port = p, isOpen = False, responseTime = None \<rparr>)"
  by (simp add: checkPort_def lan_world_def)

lemma lan_candidates: "related_candidates 19813 = [19811, 19812, 19813, 19814, 19815]"
  by code_simp

lemma lan_probes:
  "Promise_all [checkPort lan_world ''192.168.1.49'' 19811 500,
                checkPort lan_world ''192.168.1.49'' 19812 500,
                checkPort lan_world ''192.168.1.49'' 19813 500,
                checkPort lan_world ''192.168.1.49'' 19814 500,
                checkPort lan_world ''192.168.1.49'' 19815 500] =
     Inr [\<lparr> host = ''192.168.1.49'', port = 19811, isOpen = False, responseTime = None \<rparr>,
          \<lparr> host = ''192.168.1.49'', port = 19812, isOpen = False, responseTime = None \<rparr>,
          \<lparr> host = ''192.168.1.49'', port = 19813, isOpen = True, responseTime = Some 3 \<rparr>,
          \<lparr> host = ''192.168.1.49'', port = 19814, isOpen = True, responseTime = Some 3 \<rparr>,
          \<lparr> host = ''192.168.1.49'', port = 19815, isOpen = False, responseTime = None \<rparr>]"
  by (simp add: lan_checkPort)

lemma lan_started:
  "started lan_world 500 (map (\<lambda>relatedPort. (''192.168.1.49'', relatedPort))
                              [19811, 19812, 19813, 19814, 19815]) =
     [Connect ''192.168.1.49'' 19811, Connect ''192.168.1.49'' 19812,
      Connect ''192.168.1.49'' 19813, Connect ''192.168.1.49'' 19814,
      Connect ''192.168.1.49'' 19815]"
  by (simp add: lan_checkPort)

lemma lan_result:
  "server_result ''192.168.1.49'' the_info
     [\<lparr> host = ''192.168.1.49'', port = 19811, isOpen = False, responseTime = None \<rparr>,
      \<lparr> host = ''192.168.1.49'', port = 19812, isOpen = False, responseTime = None \<rparr>,
      \<lparr> host = ''192.168.1.49'', port = 19813, isOpen = True, responseTime = t1 \<rparr>,
      \<lparr> host = ''192.168.1.49'', port = 19814, isOpen = True, responseTime = t2 \<rparr>,
      \<lparr> host = ''192.168.1.49'', port = 19815, isOpen = False, responseTime = None \<rparr>] =
     \<lparr> host = ''192.168.1.49'', port = 19813, isOpen = True, responseTime = None,
       discoveryInfo = Some the_info, relatedPorts = Some [19813, 19814] \<rparr>"
  by (simp add: server_result_def the_info_def)

lemma lan_targets:
  "targets_of (js_slice [''192.168.1.49'', ''192.168.1.50''] 0 30) [19813, 19814] =
     [(''192.168.1.49'', 19813), (''192.168.1.49'', 19814),
      (''192.168.1.50'', 19813), (''192.168.1.50'', 19814)]"
  by (simp add: targets_of_def js_slice_def)

lemma lan_batch:
  "run_batch lan_world 500
     [(''192.168.1.49'', 19813), (''192.168.1.49'', 19814),
      (''192.168.1.50'', 19813), (''192.168.1.50'', 19814)]
     [Reply 0, Reply 1, Related 0, Reply 3, Related 1, Reply 2]
     \<lparr> foundServers = [], completedChecks = 0, effects = [] \<rparr> =
   Some (Inr \<lparr> foundServers =
            [(''192.168.1.49:19813'',
              \<lparr> host = ''192.168.1.49'', port = 19813, isOpen = True, responseTime = None,
                discoveryInfo = Some the_info, relatedPorts = Some [19813, 19814] \<rparr>)],
          completedChecks = 4,
          effects =
            [Datagram ''192.168.1.49'' 19813, Datagram ''192.168.1.49'' 19814,
             Datagram ''192.168.1.50'' 19813, Datagram ''192.168.1.50'' 19814,
             Connect ''192.168.1.49'' 19811, Connect ''192.168.1.49'' 19812,
             Connect ''192.168.1.49'' 19813, Connect ''192.168.1.49'' 19814,
             Connect ''192.168.1.49'' 19815,
             Connect ''192.168.1.49'' 19811, Connect ''192.168.1.49'' 19812,
             Connect ''192.168.1.49'' 19813, Connect ''192.168.1.49'' 19814,
             Connect ''192.168.1.49'' 19815] \<rparr>)"
  by (simp add: run_batch_def step_def at_index_def on_reply_def on_related_def lan_discover
      lan_candidates lan_key lan_probes lan_started lan_checkPort lan_result map_has_def Let_def
      numeral_3_eq_3 numeral_2_eq_2 the_info_def [THEN arg_cong, of info_port])

subsection \<open>The UDP scan: every reply is recorded\<close>

text \<open>
  When the loop returns with a positive batch size, every target of every host has been
  answered for. The loop does not return without a positive batch size while a host is
  left: it never returns a list.
\<close>

lemma replied_effects [simp]: "replied w timeout (s\<lparr>effects := e\<rparr>) = replied w timeout s"
  by (rule ext) (simp add: replied_def split: sum.splits option.splits)

lemma scan_inv_progress:
  "scan_inv w timeout ips ports s \<Longrightarrow>
   scan_inv w timeout ips ports (s\<lparr>effects := effects s @ [Progress a b found]\<rparr>)"
  by (simp add: scan_inv_def)

lemma scanSubnetUDP_loop_covered:
  assumes bs: "0 < batchSize"
  shows "scan_inv w timeout ips ports s \<Longrightarrow> covered w timeout ports s (take n ips) \<Longrightarrow>
     scanSubnetUDP_loop w ips ports timeout batchSize onProgress (int n) s schedules = Some (Inr s') \<Longrightarrow>
     covered w timeout ports s' ips"
proof (induction schedules arbitrary: n s)
  case Nil
  then show ?case by (simp split: if_splits)
next
  case (Cons schedule schedules)
  show ?case
  proof (cases "n < length ips")
    case False
    with Cons.prems show ?thesis by simp
  next
    case True
    define b where "b = nat batchSize"
    define batch where "batch = take b (drop n ips)"
    define targets where "targets = targets_of batch ports"
    have slice: "js_slice ips (int n) (int n + batchSize) = batch"
      unfolding batch_def b_def by (rule js_slice_batch [OF bs])
    have next_i: "int n + batchSize = int (n + b)"
      using bs by (simp add: b_def)
    have slice': "js_slice ips (int n) (int (n + b)) = batch"
      using slice by (simp only: next_i)
    have sub: "set targets \<subseteq> set ips \<times> set ports"
      using set_take_subset [of b "drop n ips"] set_drop_subset [of n ips]
      by (auto simp: targets_def batch_def set_targets_of)
    define after where "after = (\<lambda>s1 :: udp_scan. if onProgress
           then s1\<lparr>effects := effects s1 @
                  [Progress (min (completedChecks s1) (int (length ips) * int (length ports)))
                            (int (length ips) * int (length ports))
                            (map_values (foundServers s1))]\<rparr>
           else s1)"
    from True Cons.prems(3) obtain s1 where run: "run_batch w timeout targets schedule s = Some (Inr s1)"
      and rest: "scanSubnetUDP_loop w ips ports timeout batchSize onProgress (int (n + b))
          (after s1) schedules = Some (Inr s')"
      by (auto simp: slice' targets_def next_i after_def Let_def split: option.splits sum.splits
               simp del: of_nat_add)
    note rb = run_batch_inv [OF Cons.prems(1) sub run]
    have inv: "scan_inv w timeout ips ports (after s1)"
      using rb(1) by (simp add: after_def scan_inv_progress)
    have found: "foundServers (after s1) = foundServers s1"
      by (simp add: after_def)
    have old: "covered w timeout ports (after s1) (take n ips)"
      using Cons.prems(2) rb(3)
      by (auto simp: covered_def list_all_iff found intro: replied_mono)
    have new: "covered w timeout ports (after s1) batch"
      using rb(2) by (simp add: covered_def targets_def after_def)
    have "take (n + b) ips = take n ips @ batch"
      by (simp add: batch_def take_add)
    with old new have "covered w timeout ports (after s1) (take (n + b) ips)"
      by (simp add: covered_def)
    from Cons.IH [OF inv this rest] show ?thesis .
  qed
qed

lemma scanSubnetUDP_loop_never_ends:
  "batchSize \<le> 0 \<Longrightarrow> ipIdx < int (length ips) \<Longrightarrow>
   scanSubnetUDP_loop w ips ports timeout batchSize onProgress ipIdx s schedules \<noteq> Some (Inr s')"
proof (induction schedules arbitrary: ipIdx s)
  case Nil
  then show ?case by simp
next
  case (Cons schedule schedules)
  from Cons.prems have "ipIdx + batchSize < int (length ips)" by simp
  from Cons.IH [OF Cons.prems(1) this] Cons.prems(2) show ?case
    by (simp add: Let_def split: option.splits sum.splits)
qed

lemma scan_inv_initial:
  "scan_inv w timeout ips ports \<lparr> foundServers = [], completedChecks = 0, effects = [] \<rparr>"
  by (simp add: scan_inv_def)

lemma scanSubnetUDP_run:
  assumes "scanSubnetUDP w ports timeout batchSize onProgress schedules = Some (effs, Inr results)"
  obtains subnetInfo s where
    "getLocalNetworkInfo (interfaces w) = Some subnetInfo"
    "scanSubnetUDP_loop w (generateSubnetIPs subnetInfo) ports timeout batchSize onProgress 0
       \<lparr> foundServers = [], completedChecks = 0, effects = [] \<rparr> schedules = Some (Inr s)"
    "effs = effects s" "results = map snd (foundServers s)"
    "scan_inv w timeout (generateSubnetIPs subnetInfo) ports s"
proof -
  from assms obtain subnetInfo s where
    n: "getLocalNetworkInfo (interfaces w) = Some subnetInfo"
    and l: "scanSubnetUDP_loop w (generateSubnetIPs subnetInfo) ports timeout batchSize onProgress 0
       \<lparr> foundServers = [], completedChecks = 0, effects = [] \<rparr> schedules = Some (Inr s)"
    and r: "effs = effects s" "results = map snd (foundServers s)"
    by (auto simp: scanSubnetUDP_def map_values_def split: option.splits sum.splits prod.splits)
  from scanSubnetUDP_loop_inv [OF scan_inv_initial l]
  have "scan_inv w timeout (generateSubnetIPs subnetInfo) ports s" .
  with n l r show ?thesis by (rule that)
qed

lemma server_result_fields:
  "host (server_result ip info tcpResults) = ip"
  "port (server_result ip info tcpResults) = info_port info"
  "discoveryInfo (server_result ip info tcpResults) = Some info"
  by (simp_all add: server_result_def Let_def)

lemma server_result_related:
  "\<exists>rs. relatedPorts (server_result ip info (related_results w timeout ip p)) = Some rs \<and>
        sorted rs \<and>
        (\<forall>q \<in> set rs. q \<in> set (related_candidates p) \<and> tcp w ip q timeout \<noteq> None)"
  by (auto simp: server_result_def related_results_def Let_def port_result_def
           split: option.splits)

lemma distinct_map_comp:
  "distinct (map (\<lambda>x. f (g x)) xs) \<Longrightarrow> distinct (map g xs)"
  by (induction xs) auto

lemma from_reply_cases:
  assumes "from_reply w timeout ips ports entry"
  obtains ip p info where "ip \<in> set ips" and "p \<in> set ports"
    and "discover4DServer w ip p timeout = Inr (Some info)"
    and "entry = (server_key ip (info_port info),
                  server_result ip info (related_results w timeout ip (info_port info)))"
proof -
  from assms obtain ip p where mem: "ip \<in> set ips" "p \<in> set ports"
    and c: "case discover4DServer w ip p timeout of
              Inr (Some info) \<Rightarrow>
                entry = (server_key ip (info_port info),
                         server_result ip info (related_results w timeout ip (info_port info)))
            | _ \<Rightarrow> False"
    unfolding from_reply_def by blast
  show thesis
  proof (cases "discover4DServer w ip p timeout")
    case (Inl e)
    with c show ?thesis by simp
  next
    case (Inr reply)
    show ?thesis
    proof (cases reply)
      case None
      with Inr c show ?thesis by simp
    next
      case (Some info)
      with Inr c have "entry = (server_key ip (info_port info),
          server_result ip info (related_results w timeout ip (info_port info)))"
        by simp
      with mem Inr Some show ?thesis
        by (intro that [of ip p info]) simp_all
    qed
  qed
qed

lemma entry_key:
  "from_reply w timeout ips ports (k, r) \<Longrightarrow> k = server_key (host r) (port r)"
  by (erule from_reply_cases) (simp add: server_result_fields)

lemma results_distinct:
  assumes "scan_inv w timeout ips ports s"
  shows "distinct (map (\<lambda>r. (host r, port r)) (map snd (foundServers s)))"
proof -
  from assms have d: "distinct (map fst (foundServers s))"
    and e: "\<forall>kr \<in> set (foundServers s). from_reply w timeout ips ports kr"
    by (simp_all add: scan_inv_def list_all_iff)
  have "map fst (foundServers s) =
      map (\<lambda>kr. (\<lambda>(h, p). server_key h p) ((\<lambda>kr. (host (snd kr), port (snd kr))) kr)) (foundServers s)"
    using e entry_key by (intro map_cong) (auto simp: case_prod_beta)
  with d have "distinct (map (\<lambda>kr. (host (snd kr), port (snd kr))) (foundServers s))"
    using distinct_map_comp [of "\<lambda>(h, p). server_key h p" "\<lambda>kr. (host (snd kr), port (snd kr))"
        "foundServers s"]
    by simp
  then show ?thesis by (simp add: comp_def)
qed

lemma single_entry:
  assumes "distinct (map fst xs)" and "\<forall>x \<in> set xs. x = e" and "xs \<noteq> []"
  shows "xs = [e]"
proof (cases xs)
  case Nil
  with assms(3) show ?thesis by simp
next
  case (Cons x ys)
  show ?thesis
  proof (cases ys)
    case Nil
    with Cons assms(2) show ?thesis by simp
  next
    case (Cons y zs)
    with \<open>xs = x # ys\<close> assms(2) have "x = e" "y = e" by simp_all
    with Cons \<open>xs = x # ys\<close> assms(1) show ?thesis by simp
  qed
qed

subsection \<open>The UDP scan: one entry for a key\<close>

lemma lan_scan:
  "scanSubnetUDP lan_world [19813, 19814] 500 30 True [racing_schedule] =
     Some (lan_effects, Inr [lan_server])"
  by (simp add: scanSubnetUDP_def lan_world_subnet lan_world_ips lan_targets lan_batch
      map_values_def racing_schedule_def lan_effects_def lan_server_def Let_def
      del: One_nat_def)

text \<open>
  C2. In every run of \<^verbatim>\<open>scanSubnetUDP\<close> that returns, no two results have the same host
  and port, and every result comes from a reply of its host on a scanned port, with the
  port the reply claims. When one host of the subnet answers every scanned port with the
  same reply and no other host answers, the result is exactly one entry, for that host
  and the port of the reply. A callback that finds the key of its reply in the map
  starts no TCP probe and leaves the map as it is: it only counts the check and ends.
\<close>

theorem C2_one_entry_per_key:
  assumes run: "scanSubnetUDP w ports timeout batchSize onProgress schedules =
                  Some (effs, Inr results)"
  shows "distinct (map (\<lambda>r. (host r, port r)) results) \<and>
    (\<forall>r \<in> set results. \<exists>p \<in> set ports. \<exists>reply.
        discover4DServer w (host r) p timeout = Inr (Some reply) \<and>
        port r = info_port reply \<and> discoveryInfo r = Some reply) \<and>
    (getLocalNetworkInfo (interfaces w) = Some subnetInfo \<and>
     h \<in> set (generateSubnetIPs subnetInfo) \<and> ports \<noteq> [] \<and>
     (\<forall>ip \<in> set (generateSubnetIPs subnetInfo). \<forall>p \<in> set ports.
         discover4DServer w ip p timeout = (if ip = h then Inr (Some info) else Inr None))
     \<longrightarrow> (\<exists>r. results = [r] \<and> host r = h \<and> port r = info_port info \<and>
              discoveryInfo r = Some info)) \<and>
    (map_has (foundServers s) (server_key ip' (info_port info'))
     \<longrightarrow> on_reply w timeout ip' (Some info') i (s, tasks) =
           Inr (s\<lparr>completedChecks := completedChecks s + 1\<rparr>, tasks[i := Done]))"
proof -
  from run obtain net final where
    net: "getLocalNetworkInfo (interfaces w) = Some net"
    and loop: "scanSubnetUDP_loop w (generateSubnetIPs net) ports timeout batchSize onProgress 0
       \<lparr> foundServers = [], completedChecks = 0, effects = [] \<rparr> schedules = Some (Inr final)"
    and res: "results = map snd (foundServers final)"
    and inv: "scan_inv w timeout (generateSubnetIPs net) ports final"
    by (rule scanSubnetUDP_run)
  define ips where "ips = generateSubnetIPs net"
  from inv have keys: "distinct (map fst (foundServers final))"
    and entries: "\<forall>kr \<in> set (foundServers final). from_reply w timeout ips ports kr"
    by (simp_all add: scan_inv_def list_all_iff ips_def)
  have one: "distinct (map (\<lambda>r. (host r, port r)) results)"
    unfolding res by (rule results_distinct [OF inv])
  have two: "\<forall>r \<in> set results. \<exists>p \<in> set ports. \<exists>reply.
        discover4DServer w (host r) p timeout = Inr (Some reply) \<and>
        port r = info_port reply \<and> discoveryInfo r = Some reply"
  proof
    fix r assume "r \<in> set results"
    then obtain k where "(k, r) \<in> set (foundServers final)"
      by (auto simp: res)
    with entries have "from_reply w timeout ips ports (k, r)" by blast
    then show "\<exists>p \<in> set ports. \<exists>reply.
        discover4DServer w (host r) p timeout = Inr (Some reply) \<and>
        port r = info_port reply \<and> discoveryInfo r = Some reply"
      by (rule from_reply_cases) (auto simp: server_result_fields)
  qed
  have three: "\<exists>r. results = [r] \<and> host r = h \<and> port r = info_port info \<and>
              discoveryInfo r = Some info"
    if hyp: "getLocalNetworkInfo (interfaces w) = Some subnetInfo \<and>
     h \<in> set (generateSubnetIPs subnetInfo) \<and> ports \<noteq> [] \<and>
     (\<forall>ip \<in> set (generateSubnetIPs subnetInfo). \<forall>p \<in> set ports.
         discover4DServer w ip p timeout = (if ip = h then Inr (Some info) else Inr None))"
  proof -
    from hyp net have same: "subnetInfo = net" by simp
    with hyp have h: "h \<in> set ips" and ports: "ports \<noteq> []"
      and answers: "\<And>ip p. ip \<in> set ips \<Longrightarrow> p \<in> set ports \<Longrightarrow>
         discover4DServer w ip p timeout = (if ip = h then Inr (Some info) else Inr None)"
      by (simp_all add: ips_def)
    define e where "e = (server_key h (info_port info),
                     server_result h info (related_results w timeout h (info_port info)))"
    have all_e: "\<forall>kr \<in> set (foundServers final). kr = e"
    proof
      fix kr assume "kr \<in> set (foundServers final)"
      with entries have "from_reply w timeout ips ports kr" by blast
      then obtain ip p reply where "ip \<in> set ips" "p \<in> set ports"
        and "discover4DServer w ip p timeout = Inr (Some reply)"
        and kr: "kr = (server_key ip (info_port reply),
                     server_result ip reply (related_results w timeout ip (info_port reply)))"
        by (rule from_reply_cases)
      with answers [of ip p] have "ip = h" "reply = info"
        by (simp_all split: if_splits)
      with kr show "kr = e" by (simp add: e_def)
    qed
    have positive: "0 < batchSize"
    proof (rule ccontr)
      assume "\<not> 0 < batchSize"
      moreover from h have "0 < int (length ips)" by (cases ips) simp_all
      ultimately have "scanSubnetUDP_loop w ips ports timeout batchSize onProgress 0
         \<lparr> foundServers = [], completedChecks = 0, effects = [] \<rparr> schedules \<noteq> Some (Inr final)"
        by (intro scanSubnetUDP_loop_never_ends) simp_all
      with loop show False by (simp add: ips_def)
    qed
    have "covered w timeout ports \<lparr> foundServers = [], completedChecks = 0, effects = [] \<rparr> (take 0 ips)"
      by (simp add: covered_def)
    from scanSubnetUDP_loop_covered [OF positive scan_inv_initial this, of onProgress schedules final]
      loop
    have "covered w timeout ports final ips"
      by (simp add: ips_def)
    moreover from ports have "hd ports \<in> set ports" by simp
    ultimately have "replied w timeout final (h, hd ports)"
      using h by (simp add: covered_def list_all_iff set_targets_of)
    with answers [OF h \<open>hd ports \<in> set ports\<close>]
    have "map_has (foundServers final) (server_key h (info_port info))"
      by (simp add: replied_def)
    then have "foundServers final \<noteq> []"
      by (auto simp: map_has_def)
    from single_entry [OF keys all_e this] have "results = [snd e]"
      by (simp add: res)
    then show ?thesis
      by (simp add: e_def server_result_fields)
  qed
  have four: "on_reply w timeout ip' (Some info') i (s, tasks) =
           Inr (s\<lparr>completedChecks := completedChecks s + 1\<rparr>, tasks[i := Done])"
    if "map_has (foundServers s) (server_key ip' (info_port info'))"
    using that by (simp add: on_reply_def)
  from one two three four show ?thesis by blast
qed

theorem C2_one_entry_per_key_witness:
  "scanSubnetUDP lan_world [19813, 19814] 500 30 True [racing_schedule] =
     Some (lan_effects, Inr [lan_server]) \<and>
   distinct (map (\<lambda>r. (host r, port r)) [lan_server]) \<and>
   getLocalNetworkInfo (interfaces lan_world) =
     Some (calculateSubnet ''192.168.1.50'' ''255.255.255.252'') \<and>
   generateSubnetIPs (calculateSubnet ''192.168.1.50'' ''255.255.255.252'') =
     [''192.168.1.49'', ''192.168.1.50''] \<and>
   discover4DServer lan_world ''192.168.1.49'' 19813 500 = Inr (Some the_info) \<and>
   discover4DServer lan_world ''192.168.1.49'' 19814 500 = Inr (Some the_info) \<and>
   discover4DServer lan_world ''192.168.1.50'' 19813 500 = Inr None \<and>
   discover4DServer lan_world ''192.168.1.50'' 19814 500 = Inr None \<and>
   (\<exists>r. [lan_server] = [r] \<and> host r = ''192.168.1.49'' \<and> port r = info_port the_info \<and>
        discoveryInfo r = Some the_info) \<and>
   map_has (foundServers found_state) (server_key ''192.168.1.49'' (info_port the_info)) \<and>
   on_reply lan_world 500 ''192.168.1.49'' (Some the_info) 1 (found_state, [Done, Pending]) =
     Inr (found_state\<lparr>completedChecks := completedChecks found_state + 1\<rparr>, [Done, Done])"
proof -
  note c2 = C2_one_entry_per_key [OF lan_scan,
      where subnetInfo = "calculateSubnet ''192.168.1.50'' ''255.255.255.252''"
        and h = "''192.168.1.49''" and info = the_info and ip' = "''192.168.1.49''"
        and info' = the_info and s = found_state and i = 1 and tasks = "[Done, Pending]"]
  have key: "map_has (foundServers found_state) (server_key ''192.168.1.49'' (info_port the_info))"
    by (simp add: found_state_def map_has_def lan_key the_info_def)
  have d: "distinct (map (\<lambda>r. (host r, port r)) [lan_server])"
    using c2 by (rule conjunct1)
  have "getLocalNetworkInfo (interfaces lan_world) =
          Some (calculateSubnet ''192.168.1.50'' ''255.255.255.252'') \<and>
        ''192.168.1.49'' \<in> set (generateSubnetIPs (calculateSubnet ''192.168.1.50'' ''255.255.255.252'')) \<and>
        [19813, 19814 :: int] \<noteq> [] \<and>
        (\<forall>ip \<in> set (generateSubnetIPs (calculateSubnet ''192.168.1.50'' ''255.255.255.252'')).
           \<forall>p \<in> set [19813, 19814].
             discover4DServer lan_world ip p 500 =
               (if ip = ''192.168.1.49'' then Inr (Some the_info) else Inr None))"
    by (simp add: lan_world_subnet lan_world_ips lan_discover)
  with c2 [THEN conjunct2, THEN conjunct2, THEN conjunct1]
  have one: "\<exists>r. [lan_server] = [r] \<and> host r = ''192.168.1.49'' \<and>
      port r = info_port the_info \<and> discoveryInfo r = Some the_info"
    by (rule mp)
  from c2 [THEN conjunct2, THEN conjunct2, THEN conjunct2] key
  have skip: "on_reply lan_world 500 ''192.168.1.49'' (Some the_info) 1 (found_state, [Done, Pending]) =
     Inr (found_state\<lparr>completedChecks := completedChecks found_state + 1\<rparr>, [Done, Pending][1 := Done])"
    by (rule mp)
  from d one key skip show ?thesis
    by (simp add: lan_scan lan_world_subnet lan_world_ips lan_discover)
qed

text \<open>
  The check is made when the reply arrives and the entry is recorded when the probes have
  resolved. In the run above the replies on both ports of the server arrive before any
  probe has resolved: both callbacks find the map empty, each starts its five probes, and
  the second \<^verbatim>\<open>set\<close> replaces the entry of the first. The result is still one entry.
\<close>

lemma racing_run_probes_twice:
  "length (filter (\<lambda>e. e = Connect ''192.168.1.49'' 19813) lan_effects) = 2 \<and>
   length (filter (\<lambda>e. e = Connect ''192.168.1.49'' 19815) lan_effects) = 2"
  by (simp add: lan_effects_def)

text \<open>
  C3. In every run of \<^verbatim>\<open>scanSubnetUDP\<close> that returns, the related ports of every result
  are sorted in ascending order, each of them is at most 2 away from the port of the
  result, lies between 1 and 65535 and answered the TCP probe; and every TCP connection
  the scan started went to a port between 1 and 65535. Around the port 65535 the ports
  probed are 65533, 65534 and 65535; around the port 1 they are 1, 2 and 3.
\<close>

theorem C3_related_ports:
  assumes run: "scanSubnetUDP w ports timeout batchSize onProgress schedules =
                  Some (effs, Inr results)"
  shows "(\<forall>r \<in> set results. \<exists>rs. relatedPorts r = Some rs \<and> sorted rs \<and>
            (\<forall>q \<in> set rs. port r - 2 \<le> q \<and> q \<le> port r + 2 \<and> 1 \<le> q \<and> q \<le> 65535 \<and>
                           tcp w (host r) q timeout \<noteq> None)) \<and>
         (\<forall>h q. Connect h q \<in> set effs \<longrightarrow> 1 \<le> q \<and> q \<le> 65535) \<and>
         related_candidates 65535 = [65533, 65534, 65535] \<and>
         related_candidates 1 = [1, 2, 3]"
proof -
  from run obtain net final where
    res: "results = map snd (foundServers final)" and effs: "effs = effects final"
    and inv: "scan_inv w timeout (generateSubnetIPs net) ports final"
    by (rule scanSubnetUDP_run)
  have one: "\<forall>r \<in> set results. \<exists>rs. relatedPorts r = Some rs \<and> sorted rs \<and>
            (\<forall>q \<in> set rs. port r - 2 \<le> q \<and> q \<le> port r + 2 \<and> 1 \<le> q \<and> q \<le> 65535 \<and>
                           tcp w (host r) q timeout \<noteq> None)"
  proof
    fix r assume "r \<in> set results"
    then obtain k where "(k, r) \<in> set (foundServers final)"
      by (auto simp: res)
    with inv have "from_reply w timeout (generateSubnetIPs net) ports (k, r)"
      by (auto simp: scan_inv_def list_all_iff)
    then obtain ip info where
      r: "r = server_result ip info (related_results w timeout ip (info_port info))"
      by (rule from_reply_cases) simp
    from server_result_related [of ip info w timeout "info_port info"]
    obtain rs where rs: "relatedPorts r = Some rs" "sorted rs"
      and each: "\<forall>q \<in> set rs. q \<in> set (related_candidates (info_port info)) \<and>
                  tcp w ip q timeout \<noteq> None"
      unfolding r by blast
    have "\<forall>q \<in> set rs. port r - 2 \<le> q \<and> q \<le> port r + 2 \<and> 1 \<le> q \<and> q \<le> 65535 \<and>
                           tcp w (host r) q timeout \<noteq> None"
    proof
      fix q assume "q \<in> set rs"
      with each have "q \<in> set (related_candidates (info_port info))" "tcp w ip q timeout \<noteq> None"
        by simp_all
      with related_candidates_bounds [of q "info_port info"]
      show "port r - 2 \<le> q \<and> q \<le> port r + 2 \<and> 1 \<le> q \<and> q \<le> 65535 \<and>
                           tcp w (host r) q timeout \<noteq> None"
        by (simp add: r server_result_fields)
    qed
    with rs show "\<exists>rs. relatedPorts r = Some rs \<and> sorted rs \<and>
            (\<forall>q \<in> set rs. port r - 2 \<le> q \<and> q \<le> port r + 2 \<and> 1 \<le> q \<and> q \<le> 65535 \<and>
                           tcp w (host r) q timeout \<noteq> None)"
      by blast
  qed
  have two: "\<forall>h q. Connect h q \<in> set effs \<longrightarrow> 1 \<le> q \<and> q \<le> 65535"
  proof (intro allI impI)
    fix h q assume "Connect h q \<in> set effs"
    with inv have "connect_ok (Connect h q :: Server4DScanResult effect)"
      by (auto simp: scan_inv_def list_all_iff effs)
    then show "1 \<le> q \<and> q \<le> 65535" by simp
  qed
  have three: "related_candidates 65535 = [65533, 65534, 65535]" "related_candidates 1 = [1, 2, 3]"
    by code_simp+
  from one two three show ?thesis by blast
qed

theorem C3_related_ports_witness:
  "scanSubnetUDP lan_world [19813, 19814] 500 30 True [racing_schedule] =
     Some (lan_effects, Inr [lan_server]) \<and>
   port lan_server = 19813 \<and>
   (\<exists>rs. relatedPorts lan_server = Some rs \<and> sorted rs \<and>
      (\<forall>q \<in> set rs. port lan_server - 2 \<le> q \<and> q \<le> port lan_server + 2 \<and> 1 \<le> q \<and> q \<le> 65535 \<and>
                     tcp lan_world (host lan_server) q 500 \<noteq> None)) \<and>
   relatedPorts lan_server = Some [19813, 19814] \<and>
   Connect ''192.168.1.49'' 19815 \<in> set lan_effects \<and> (1 :: int) \<le> 19815 \<and> (19815 :: int) \<le> 65535"
proof -
  note c3 = C3_related_ports [OF lan_scan]
  from c3 have "\<forall>r \<in> set [lan_server]. \<exists>rs. relatedPorts r = Some rs \<and> sorted rs \<and>
      (\<forall>q \<in> set rs. port r - 2 \<le> q \<and> q \<le> port r + 2 \<and> 1 \<le> q \<and> q \<le> 65535 \<and>
                     tcp lan_world (host r) q 500 \<noteq> None)"
    by (rule conjunct1)
  then have one: "\<exists>rs. relatedPorts lan_server = Some rs \<and> sorted rs \<and>
      (\<forall>q \<in> set rs. port lan_server - 2 \<le> q \<and> q \<le> port lan_server + 2 \<and> 1 \<le> q \<and> q \<le> 65535 \<and>
                     tcp lan_world (host lan_server) q 500 \<noteq> None)"
    by (rule bspec) simp
  have mem: "Connect ''192.168.1.49'' 19815 \<in> set lan_effects"
    by (simp add: lan_effects_def)
  from c3 [THEN conjunct2, THEN conjunct1] mem have two: "(1 :: int) \<le> 19815 \<and> (19815 :: int) \<le> 65535"
    by blast
  have "port lan_server = 19813" "relatedPorts lan_server = Some [19813, 19814]"
    by (simp_all add: lan_server_def)
  with lan_scan one mem two show ?thesis
    by (intro conjI; (assumption | simp))
qed

subsection \<open>The UDP scan returns\<close>

text \<open>
  With a timeout that is not negative and ports between 1 and 65535, no discovery and no
  probe rejects. The sequential schedule is then a schedule of its batch, so every batch
  has one; with a positive batch size and a local network, \<^verbatim>\<open>scanSubnetUDP\<close> has runs that
  return.
\<close>

lemma tasks_at:
  "at_index (replicate i Done @ t # replicate n Pending) i = Some t"
  by (simp add: at_index_def nth_append)

lemma tasks_set:
  "(replicate i Done @ t # replicate n Pending)[i := t'] = replicate i Done @ t' # replicate n Pending"
  using list_update_length [of "replicate i Done" t "replicate n Pending" t'] by simp

lemma tasks_done:
  "replicate i Done @ Done # replicate n Pending = replicate (Suc i) Done @ replicate n Pending"
  by (simp add: replicate_app_Cons_same)

lemma on_reply_silent:
  assumes "reply = None \<or>
           (\<exists>info. reply = Some info \<and> map_has (foundServers s) (server_key ip (info_port info)))"
  shows "\<exists>s1. on_reply w timeout ip reply i (s, tasks) = Inr (s1, tasks[i := Done]) \<and>
              foundServers s1 = foundServers s"
  using assms by (auto simp: on_reply_def)

lemma related_probes_resolve:
  assumes "0 \<le> timeout"
  shows "Promise_all (map (\<lambda>relatedPort. checkPort w ip relatedPort timeout) (related_candidates p)) =
           Inr (related_results w timeout ip p)"
  unfolding related_results_def
proof (rule Promise_all_resolved)
  fix q assume "q \<in> set (related_candidates p)"
  from related_candidates_bounds [OF this] assms
  show "checkPort w ip q timeout = Inr (port_result w ip q timeout)"
    by (simp add: checkPort_resolves)
qed

lemma on_reply_probing:
  assumes "0 \<le> timeout"
    and "\<not> map_has (foundServers s) (server_key ip (info_port info))"
  shows "\<exists>s1. on_reply w timeout ip (Some info) i (s, tasks) =
                Inr (s1, tasks[i := Probing info (related_results w timeout ip (info_port info))]) \<and>
              foundServers s1 = foundServers s"
  using assms(2) by (simp add: on_reply_def Let_def related_probes_resolve [OF assms(1)])

lemma on_related_records:
  "\<exists>s1. on_related ip i info tcpResults (s, tasks) = (s1, tasks[i := Done]) \<and>
        foundServers s1 =
          AList.update (server_key ip (info_port info)) (server_result ip info tcpResults)
            (foundServers s)"
  by (simp add: on_related_def Let_def)

lemma sequential_schedule_runs:
  assumes "drop i targets = rest" and "i \<le> length targets"
    and timeout: "0 \<le> timeout"
    and infos: "map (\<lambda>(ip, p). discover4DServer w ip p timeout) targets = map Inr infos"
  shows "\<exists>s'. run_events w timeout targets infos
                (sequential_schedule w timeout rest i (foundServers s))
                (s, replicate i Done @ replicate (length rest) Pending) =
              Some (Inr (s', replicate (length targets) Done))"
  using assms(1,2)
proof (induction rest arbitrary: i s)
  case Nil
  then have "i = length targets" by simp
  then show ?case by simp
next
  case (Cons target rest)
  obtain ip p where target: "target = (ip, p)" by (cases target)
  from Cons.prems have i: "i < length targets"
    by (cases "i < length targets") simp_all
  with Cons.prems have at: "targets ! i = (ip, p)" and rest: "drop (Suc i) targets = rest"
    using Cons_nth_drop_Suc [OF i] by (simp_all add: target)
  from i have le: "Suc i \<le> length targets" by simp
  define n where "n = length rest"
  define reply where "reply = infos ! i"
  from infos_nth [OF infos i] at have info_at: "at_index infos i = Some reply"
    and discovered: "discover4DServer w ip p timeout = Inr reply"
    by (simp_all add: reply_def)
  have start: "replicate i Done @ replicate (length (target # rest)) Pending =
      replicate i Done @ Pending # replicate n Pending"
    by (simp add: n_def)
  show ?case
  proof (cases "reply = None \<or>
           (\<exists>info. reply = Some info \<and> map_has (foundServers s) (server_key ip (info_port info)))")
    case True
    from on_reply_silent [OF True, of w timeout i "replicate i Done @ Pending # replicate n Pending"]
    obtain s1 where r: "on_reply w timeout ip reply i (s, replicate i Done @ Pending # replicate n Pending) =
        Inr (s1, replicate (Suc i) Done @ replicate n Pending)"
      and f: "foundServers s1 = foundServers s"
      by (auto simp: tasks_set tasks_done)
    have sched: "sequential_schedule w timeout (target # rest) i (foundServers s) =
        Reply i # sequential_schedule w timeout rest (Suc i) (foundServers s1)"
      using True discovered by (auto simp: target f)
    have "step w timeout targets infos (Reply i) (s, replicate i Done @ Pending # replicate n Pending) =
        Some (Inr (s1, replicate (Suc i) Done @ replicate n Pending))"
      using i tasks_at [of i Pending n] by (simp add: step_def at info_at r)
    with Cons.IH [OF rest le, of s1] show ?thesis
      by (simp add: sched start n_def)
  next
    case False
    then obtain info where some: "reply = Some info"
      and fresh: "\<not> map_has (foundServers s) (server_key ip (info_port info))"
      by (cases reply) auto
    define results where "results = related_results w timeout ip (info_port info)"
    from on_reply_probing [OF timeout fresh, of w i "replicate i Done @ Pending # replicate n Pending"]
    obtain s1 where r1: "on_reply w timeout ip reply i (s, replicate i Done @ Pending # replicate n Pending) =
        Inr (s1, replicate i Done @ Probing info results # replicate n Pending)"
      and f1: "foundServers s1 = foundServers s"
      by (auto simp: tasks_set results_def some)
    from on_related_records [of ip i info results s1
        "replicate i Done @ Probing info results # replicate n Pending"]
    obtain s2 where r2: "on_related ip i info results
          (s1, replicate i Done @ Probing info results # replicate n Pending) =
        (s2, replicate (Suc i) Done @ replicate n Pending)"
      and f2: "foundServers s2 =
          AList.update (server_key ip (info_port info)) (server_result ip info results)
            (foundServers s)"
      by (auto simp: tasks_set tasks_done f1)
    have sched: "sequential_schedule w timeout (target # rest) i (foundServers s) =
        Reply i # Related i # sequential_schedule w timeout rest (Suc i) (foundServers s2)"
      using discovered some fresh by (simp add: target f2 results_def)
    have one: "step w timeout targets infos (Reply i) (s, replicate i Done @ Pending # replicate n Pending) =
        Some (Inr (s1, replicate i Done @ Probing info results # replicate n Pending))"
      using i tasks_at [of i Pending n] by (simp add: step_def at info_at r1)
    have two: "step w timeout targets infos (Related i)
          (s1, replicate i Done @ Probing info results # replicate n Pending) =
        Some (Inr (s2, replicate (Suc i) Done @ replicate n Pending))"
      using i tasks_at [of i "Probing info results" n] by (simp add: step_def at r2)
    from Cons.IH [OF rest le, of s2] one two show ?thesis
      by (simp add: sched start n_def)
  qed
qed

lemma Promise_all_resolves:
  "\<forall>x \<in> set xs. \<exists>r. f x = Inr r \<Longrightarrow> \<exists>ys. Promise_all (map f xs) = Inr ys"
  by (induction xs) auto

lemma run_batch_returns:
  assumes "0 \<le> timeout" and "\<forall>t \<in> set targets. 1 \<le> snd t \<and> snd t \<le> 65535"
  shows "\<exists>schedule s'. run_batch w timeout targets schedule s = Some (Inr s')"
proof -
  define s0 where "s0 = s\<lparr>effects := effects s @ sent w timeout targets\<rparr>"
  have "\<forall>t \<in> set targets. \<exists>r. (\<lambda>(ip, p). discover4DServer w ip p timeout) t = Inr r"
    using assms(2) discover4DServer_resolves by (auto simp: case_prod_beta)
  from Promise_all_resolves [OF this] obtain infos where
    pa: "Promise_all (map (\<lambda>(ip, p). discover4DServer w ip p timeout) targets) = Inr infos"
    by blast
  from Promise_all_Inr [OF pa]
  have infos: "map (\<lambda>(ip, p). discover4DServer w ip p timeout) targets = map Inr infos" .
  from sequential_schedule_runs [OF _ _ assms(1) infos, of 0 targets s0]
  obtain s' where "run_events w timeout targets infos
      (sequential_schedule w timeout targets 0 (foundServers s0))
      (s0, replicate (length targets) Pending) = Some (Inr (s', replicate (length targets) Done))"
    by auto
  with pa have "run_batch w timeout targets (sequential_schedule w timeout targets 0 (foundServers s0)) s =
      Some (Inr s')"
    by (simp add: run_batch_def s0_def Let_def list_all_length)
  then show ?thesis by blast
qed

lemma scanSubnetUDP_loop_returns:
  assumes bs: "0 < batchSize" and timeout: "0 \<le> timeout"
    and ports: "\<forall>p \<in> set ports. 1 \<le> p \<and> p \<le> 65535"
  shows "\<exists>schedules s'.
     scanSubnetUDP_loop w ips ports timeout batchSize onProgress (int n) s schedules = Some (Inr s')"
proof (induction "length ips - n" arbitrary: n s rule: less_induct)
  case less
  show ?case
  proof (cases "n < length ips")
    case False
    then have "scanSubnetUDP_loop w ips ports timeout batchSize onProgress (int n) s [] = Some (Inr s)"
      by simp
    then show ?thesis by blast
  next
    case True
    define b where "b = nat batchSize"
    define targets where "targets = targets_of (js_slice ips (int n) (int n + batchSize)) ports"
    have "\<forall>t \<in> set targets. 1 \<le> snd t \<and> snd t \<le> 65535"
      using ports by (auto simp: targets_def set_targets_of)
    from run_batch_returns [OF timeout this, of w s]
    obtain schedule s1 where run: "run_batch w timeout targets schedule s = Some (Inr s1)"
      by blast
    define s2 where "s2 = (if onProgress
           then s1\<lparr>effects := effects s1 @
                  [Progress (min (completedChecks s1) (int (length ips) * int (length ports)))
                            (int (length ips) * int (length ports))
                            (map_values (foundServers s1))]\<rparr>
           else s1)"
    have next_i: "int n + batchSize = int (n + b)"
      using bs by (simp add: b_def)
    have "length ips - (n + b) < length ips - n"
      using True bs by (simp add: b_def)
    from less [OF this, of s2]
    obtain schedules s' where rest:
      "scanSubnetUDP_loop w ips ports timeout batchSize onProgress (int (n + b)) s2 schedules =
         Some (Inr s')"
      by blast
    have "scanSubnetUDP_loop w ips ports timeout batchSize onProgress (int n) s (schedule # schedules) =
        scanSubnetUDP_loop w ips ports timeout batchSize onProgress (int n + batchSize) s2 schedules"
      using True run by (simp add: targets_def s2_def Let_def)
    with rest have "scanSubnetUDP_loop w ips ports timeout batchSize onProgress (int n) s
        (schedule # schedules) = Some (Inr s')"
      by (simp only: next_i)
    then show ?thesis by blast
  qed
qed

lemma scanSubnetUDP_returns:
  assumes "getLocalNetworkInfo (interfaces w) = Some subnetInfo" and "0 < batchSize"
    and "0 \<le> timeout" and "\<forall>p \<in> set ports. 1 \<le> p \<and> p \<le> 65535"
  shows "\<exists>schedules effs results.
     scanSubnetUDP w ports timeout batchSize onProgress schedules = Some (effs, Inr results)"
proof -
  from scanSubnetUDP_loop_returns [OF assms(2,3,4), of w "generateSubnetIPs subnetInfo"
      onProgress 0 "\<lparr> foundServers = [], completedChecks = 0, effects = [] \<rparr>"]
  obtain schedules s' where
    "scanSubnetUDP_loop w (generateSubnetIPs subnetInfo) ports timeout batchSize onProgress 0
       \<lparr> foundServers = [], completedChecks = 0, effects = [] \<rparr> schedules = Some (Inr s')"
    by auto
  with assms(1) have "scanSubnetUDP w ports timeout batchSize onProgress schedules =
      Some (effects s', Inr (map_values (foundServers s')))"
    by (simp add: scanSubnetUDP_def)
  then show ?thesis by blast
qed

subsection \<open>The UDP scan rejects\<close>

text \<open>
  When a port scanned is outside 1 to 65535, its discoveries reject as the first batch is
  set up, and the scan rejects with the \<^verbatim>\<open>RangeError\<close> before any reply is handled, whatever
  the schedule: the datagrams of the other ports of the batch have been handed over, and
  there is no progress call. With a negative timeout the scan rejects at the first reply
  that makes it probe.
\<close>

lemma discoveries_rejected:
  assumes "ip \<in> set batch" and "p \<in> set ports" and "p < 1 \<or> 65535 < p"
  shows "Promise_all (map (\<lambda>(ip, port'). discover4DServer w ip port' timeout) (targets_of batch ports)) =
           Inl RangeError"
proof -
  define ps where "ps = map (\<lambda>(ip, port'). discover4DServer w ip port' timeout) (targets_of batch ports)"
  from assms(1,2) have "(ip, p) \<in> set (targets_of batch ports)"
    by (simp add: set_targets_of)
  then have "discover4DServer w ip p timeout \<in> set ps"
    unfolding ps_def by (auto simp: image_iff intro!: bexI [of _ "(ip, p)"])
  with discover4DServer_rejects [OF assms(3), of w ip timeout] have "Inl RangeError \<in> set ps"
    by simp
  from Promise_all_rejected [OF this] obtain e where e: "Promise_all ps = Inl e"
    by blast
  from Promise_all_Inl [OF this] obtain ip' p' where "discover4DServer w ip' p' timeout = Inl e"
    by (auto simp: ps_def)
  then have "e = RangeError"
    by (rule discover4DServer_Inl)
  with e show ?thesis by (simp add: ps_def)
qed

lemma scanSubnetUDP_rejects:
  assumes "getLocalNetworkInfo (interfaces w) = Some subnetInfo"
    and "generateSubnetIPs subnetInfo \<noteq> []" and "0 < batchSize"
    and "p \<in> set ports" and "p < 1 \<or> 65535 < p"
  shows "scanSubnetUDP w ports timeout batchSize onProgress (schedule # schedules) =
           Some (sent w timeout (targets_of (take (nat batchSize) (generateSubnetIPs subnetInfo)) ports),
                 Inl RangeError)"
proof -
  define ips where "ips = generateSubnetIPs subnetInfo"
  have slice: "js_slice ips 0 batchSize = take (nat batchSize) ips"
    using js_slice_batch [OF assms(3), of ips 0] by simp
  from assms(2,3) have "hd ips \<in> set (take (nat batchSize) ips)"
    by (cases ips) (simp_all add: take_Cons' ips_def)
  from discoveries_rejected [OF this assms(4,5)] assms(1,2) show ?thesis
    by (simp add: scanSubnetUDP_def run_batch_def slice Let_def ips_def [symmetric])
qed

lemma scanSubnetUDP_rejects_example:
  "scanSubnetUDP lan_world [0, 70000] 500 30 True [[]] = Some ([], Inl RangeError)"
proof -
  have "scanSubnetUDP lan_world [0, 70000] 500 30 True [[]] =
      Some (sent lan_world 500
              (targets_of (take (nat 30)
                 (generateSubnetIPs (calculateSubnet ''192.168.1.50'' ''255.255.255.252'')))
                 [0, 70000]),
            Inl RangeError)"
    by (rule scanSubnetUDP_rejects [where p = 0]) (simp_all add: lan_world_subnet lan_world_ips)
  then show ?thesis
    by (simp add: lan_world_ips targets_of_def discover4DServer_def)
qed

lemma negative_timeout_example:
  "scanSubnetUDP lan_world [19813] (- 1) 30 True [[Reply 0]] =
     Some ([Datagram ''192.168.1.49'' 19813, Datagram ''192.168.1.50'' 19813], Inl RangeError)"
  by (simp add: scanSubnetUDP_def lan_world_subnet lan_world_ips targets_of_def js_slice_def
      run_batch_def step_def at_index_def on_reply_def lan_discover lan_candidates map_has_def
      checkPort_def Let_def the_info_def [THEN arg_cong, of info_port])

end
